theory Spec2Isabelle
  imports Main "HOL-Library.Multiset"
begin

section \<open>Values of the dataset file\<close>

text \<open>
  \<^verbatim>\<open>response.json()\<close> yields a JSON value. Numbers are modelled as integers: the
  dataset holds years and topic counts, and integer arithmetic on doubles is exact below
  \<open>2^53\<close>. \<open>JObj\<close> carries the own properties of the parsed object in creation order
  (the order of the members in the file); a JavaScript object has every key once.
\<close>

datatype json =
    JNull
  | JBool bool
  | JNum int
  | JStr string
  | JArr "json list"
  | JObj "(string \<times> json) list"

text \<open>Truthiness (\<^verbatim>\<open>!x\<close>, \<^verbatim>\<open>x && y\<close>, \<^verbatim>\<open>x ? a : b\<close>); \<open>None\<close> is \<^verbatim>\<open>undefined\<close>.\<close>

fun truthy :: "json \<Rightarrow> bool" where
  "truthy JNull = False"
| "truthy (JBool b) = b"
| "truthy (JNum n) = (n \<noteq> 0)"
| "truthy (JStr s) = (s \<noteq> [])"
| "truthy (JArr xs) = True"
| "truthy (JObj ps) = True"

fun truthy_opt :: "json option \<Rightarrow> bool" where
  "truthy_opt None = False"
| "truthy_opt (Some v) = truthy v"

text \<open>\<^verbatim>\<open>Array.isArray\<close>.\<close>

fun isArray :: "json option \<Rightarrow> bool" where
  "isArray (Some (JArr xs)) = True"
| "isArray v = False"

text \<open>Errors: \<open>Error\<close> is thrown by the program with the given message, the others by the
  platform (a rejected fetch, a body that is not JSON, a property read on \<^verbatim>\<open>null\<close>).\<close>

datatype js_error =
    Error string
  | TypeError string
  | SyntaxError string

fun message :: "js_error \<Rightarrow> string" where
  "message (Error m) = m"
| "message (TypeError m) = m"
| "message (SyntaxError m) = m"

text \<open>
  \<^verbatim>\<open>data.years\<close>, \<^verbatim>\<open>data.categories\<close>, \<^verbatim>\<open>data.markers\<close>: reading a property of
  \<^verbatim>\<open>null\<close> throws; an object yields its own property; none of the three names is a member
  of a built-in prototype, so every other value yields \<^verbatim>\<open>undefined\<close>.
\<close>

fun field :: "json \<Rightarrow> string \<Rightarrow> js_error + json option" where
  "field JNull k = Inl (TypeError (''Cannot read properties of null (reading '' @ k @ '')''))"
| "field (JObj ps) k = Inr (map_of ps k)"
| "field v k = Inr None"

subsection \<open>Decimal names of array indices\<close>

definition digit :: "nat \<Rightarrow> char" where
  "digit n = ''0123456789'' ! (n mod 10)"

fun show_nat :: "nat \<Rightarrow> string" where
  "show_nat n = (if n < 10 then [digit n] else show_nat (n div 10) @ [digit n])"

declare show_nat.simps [simp del]

definition is_digit :: "char \<Rightarrow> bool" where
  "is_digit c = (c \<in> set ''0123456789'')"

definition digit_val :: "char \<Rightarrow> nat" where
  "digit_val c = of_char c - 48"

definition parse_nat :: "string \<Rightarrow> nat" where
  "parse_nat s = foldl (\<lambda>n c. 10 * n + digit_val c) 0 s"

text \<open>An array index is the canonical decimal name of an integer below \<open>2^32 - 1\<close>.\<close>

definition is_array_index :: "string \<Rightarrow> bool" where
  "is_array_index s =
     (s \<noteq> [] \<and> list_all is_digit s \<and> show_nat (parse_nat s) = s \<and> parse_nat s < 4294967295)"

subsection \<open>\<^verbatim>\<open>Object.entries\<close>\<close>

text \<open>
  The own enumerable string-keyed properties: array indices first, in ascending numeric
  order, then the other keys in creation order.
\<close>

definition own_entries :: "(string \<times> 'a) list \<Rightarrow> (string \<times> 'a) list" where
  "own_entries ps =
     sort_key (\<lambda>p. parse_nat (fst p)) (filter (\<lambda>p. is_array_index (fst p)) ps)
     @ filter (\<lambda>p. \<not> is_array_index (fst p)) ps"

fun Object_entries :: "json \<Rightarrow> js_error + (string \<times> json) list" where
  "Object_entries JNull = Inl (TypeError ''Cannot convert undefined or null to object'')"
| "Object_entries (JObj ps) = Inr (own_entries ps)"
| "Object_entries (JArr xs) = Inr (zip (map show_nat [0..<length xs]) xs)"
| "Object_entries (JStr s) = Inr (zip (map show_nat [0..<length s]) (map (\<lambda>c. JStr [c]) s))"
| "Object_entries v = Inr []"


section \<open>The dataset as the builders read it\<close>

text \<open>
  The data model: years, the categories (own properties in creation order) with their
  counts, and the optional markers mapping (\<open>None\<close> when the field is absent).
\<close>

record dataset =
  years :: "int list"
  categories :: "(string \<times> int list) list"
  markers :: "(string \<times> json) list option"

fun ints_of :: "json list \<Rightarrow> int list option" where
  "ints_of [] = Some []"
| "ints_of (JNum n # xs) = map_option ((#) n) (ints_of xs)"
| "ints_of (v # xs) = None"

fun series_of :: "(string \<times> json) list \<Rightarrow> (string \<times> int list) list option" where
  "series_of [] = Some []"
| "series_of ((c, JArr vs) # ps) =
     (case (ints_of vs, series_of ps) of
        (Some vl, Some r) \<Rightarrow> Some ((c, vl) # r)
      | _ \<Rightarrow> None)"
| "series_of (p # ps) = None"

text \<open>The typed reading of a parsed value, where it has the shape of the data model.\<close>

definition dataset_of :: "json \<Rightarrow> dataset option" where
  "dataset_of d =
     (case d of
        JObj ps \<Rightarrow>
          (case (map_of ps ''years'', map_of ps ''categories'') of
             (Some (JArr ys), Some (JObj cs)) \<Rightarrow>
               (case (ints_of ys, series_of cs) of
                  (Some yl, Some cl) \<Rightarrow>
                    (case map_of ps ''markers'' of
                       None \<Rightarrow> Some \<lparr> years = yl, categories = cl, markers = None \<rparr>
                     | Some (JObj ms) \<Rightarrow> Some \<lparr> years = yl, categories = cl, markers = Some ms \<rparr>
                     | Some v \<Rightarrow> None)
                | _ \<Rightarrow> None)
           | _ \<Rightarrow> None)
      | _ \<Rightarrow> None)"

text \<open>The invariants of the data model: years non-empty and strictly increasing, category
  names unique, every category with one non-negative count per year.\<close>

definition valid_dataset :: "dataset \<Rightarrow> bool" where
  "valid_dataset ds =
     (years ds \<noteq> [] \<and> sorted_wrt (<) (years ds) \<and> distinct (map fst (categories ds)) \<and>
      list_all (\<lambda>p. length (snd p) = length (years ds) \<and> list_all (\<lambda>v. 0 \<le> v) (snd p))
        (categories ds))"

section \<open>Chart configuration\<close>

record plot_config =
  responsive :: bool
  displayModeBar :: bool
  displaylogo :: bool
  modeBarButtonsToRemove :: "string list"

record chart_config =
  colors :: "string list"
  layout :: plot_config

definition CHART_CONFIG :: chart_config where
  "CHART_CONFIG = \<lparr>
     colors = [
       ''#FF6B6B'', ''#4ECDC4'', ''#45B7D1'', ''#96CEB4'', ''#FFEAA7'',
       ''#DDA0DD'', ''#98D8C8'', ''#F7DC6F'', ''#FF9FF3'', ''#54A0FF'',
       ''#5F27CD'', ''#00D2D3'', ''#FF9F43'', ''#10AC84'', ''#EE5A24'',
       ''#0AD3C4'', ''#FFC312'', ''#C4E538'', ''#F79F1F'', ''#A3CB38''],
     layout = \<lparr>
       responsive = True,
       displayModeBar = True,
       displaylogo = False,
       modeBarButtonsToRemove = [''pan2d'', ''lasso2d'', ''select2d'', ''autoScale2d''] \<rparr> \<rparr>"

section \<open>Property reads through the prototype chain\<close>

text \<open>
  \<^verbatim>\<open>obj[key]\<close> on a parsed object finds an own property or else a member inherited from
  \<^verbatim>\<open>Object.prototype\<close>; it is \<^verbatim>\<open>undefined\<close> when there is neither. An inherited member
  (a built-in function, or the prototype itself for \<^verbatim>\<open>__proto__\<close>) is recorded by its name.
\<close>

datatype jsval = Undefined | Val json | Inherited string

definition Object_prototype :: "string list" where
  "Object_prototype = [
     ''constructor'', ''__defineGetter__'', ''__defineSetter__'', ''hasOwnProperty'',
     ''__lookupGetter__'', ''__lookupSetter__'', ''isPrototypeOf'', ''propertyIsEnumerable'',
     ''toString'', ''valueOf'', ''__proto__'', ''toLocaleString'']"

definition get_property :: "(string \<times> json) list \<Rightarrow> string \<Rightarrow> jsval" where
  "get_property ps k =
     (case map_of ps k of
        Some v \<Rightarrow> Val v
      | None \<Rightarrow> if k \<in> set Object_prototype then Inherited k else Undefined)"

fun truthy_val :: "jsval \<Rightarrow> bool" where
  "truthy_val Undefined = False"
| "truthy_val (Val v) = truthy v"
| "truthy_val (Inherited k) = True"

section \<open>\<^verbatim>\<open>Array.prototype.sort\<close> with a comparator\<close>

text \<open>
  The sort is stable: an element moves behind another only when the comparator returns a
  positive number for the pair. Insertion from the right end realises that order.
\<close>

fun insert_by :: "('a \<Rightarrow> 'a \<Rightarrow> int) \<Rightarrow> 'a \<Rightarrow> 'a list \<Rightarrow> 'a list" where
  "insert_by cmp a [] = [a]"
| "insert_by cmp a (b # bs) = (if cmp a b \<le> 0 then a # b # bs else b # insert_by cmp a bs)"

definition sort_by :: "('a \<Rightarrow> 'a \<Rightarrow> int) \<Rightarrow> 'a list \<Rightarrow> 'a list" where
  "sort_by cmp xs = foldr (insert_by cmp) xs []"

section \<open>Series\<close>

record trace_line =
  line_width :: nat
  line_color :: string
  line_shape :: string

record marker_outline =
  outline_width :: nat
  outline_color :: string

record trace_marker =
  marker_size :: nat
  marker_color :: string
  marker_symbol :: jsval
  marker_line :: marker_outline

record trace =
  trace_x :: "int list"
  trace_y :: "int list"
  trace_mode :: string
  trace_name :: string
  trace_type :: string
  trace_line :: trace_line
  trace_marker :: trace_marker
  hovertemplate :: string
  connectgaps :: bool

record category_total =
  ct_name :: string
  ct_values :: "int list"
  ct_total :: int

text \<open>\<^verbatim>\<open>values.reduce((sum, val) => sum + val, 0)\<close>.\<close>

definition total :: "int list \<Rightarrow> int" where
  "total vs = foldl (\<lambda>sum val. sum + val) 0 vs"

text \<open>\<^verbatim>\<open>data.markers && data.markers[name] ? data.markers[name] : 'circle'\<close>.\<close>

definition symbol_for :: "dataset \<Rightarrow> string \<Rightarrow> jsval" where
  "symbol_for d n =
     (case markers d of
        None \<Rightarrow> Val (JStr ''circle'')
      | Some m \<Rightarrow> if truthy_val (get_property m n) then get_property m n else Val (JStr ''circle''))"

text \<open>The body of the \<^verbatim>\<open>forEach\<close> callback: the trace pushed for one category at the
  current \<open>colorIndex\<close>.\<close>

definition make_trace :: "dataset \<Rightarrow> category_total \<Rightarrow> nat \<Rightarrow> trace" where
  "make_trace d c colorIndex =
     (let color = colors CHART_CONFIG ! (colorIndex mod length (colors CHART_CONFIG));
          symbol = symbol_for d (ct_name c)
      in \<lparr> trace_x = years d,
           trace_y = ct_values c,
           trace_mode = ''lines+markers'',
           trace_name = ct_name c,
           trace_type = ''scatter'',
           trace_line = \<lparr> line_width = 3, line_color = color, line_shape = ''linear'' \<rparr>,
           trace_marker = \<lparr>
             marker_size = 10,
             marker_color = color,
             marker_symbol = symbol,
             marker_line = \<lparr> outline_width = 2, outline_color = ''#ffffff'' \<rparr> \<rparr>,
           hovertemplate =
             ''<b>%{fullData.name}</b><br>'' @ ''Year: %{x}<br>'' @ ''Topics: %{y}<br>'' @ ''<extra></extra>'',
           connectgaps = False \<rparr>)"

definition categoryTotals :: "dataset \<Rightarrow> category_total list" where
  "categoryTotals d =
     sort_by (\<lambda>a b. ct_total b - ct_total a)
       (map (\<lambda>(n, vs). \<lparr> ct_name = n, ct_values = vs, ct_total = total vs \<rparr>)
          (own_entries (categories d)))"

definition createChartTraces :: "dataset \<Rightarrow> trace list" where
  "createChartTraces d =
     fst (fold (\<lambda>c (traces, colorIndex). (traces @ [make_trace d c colorIndex], colorIndex + 1))
            (categoryTotals d) ([], 0))"

section \<open>Annotations\<close>

record font =
  font_size :: nat
  font_color :: string
  font_family :: string

record annotation =
  ann_x :: int
  ann_y :: int
  ann_text :: string
  showarrow :: bool
  arrowhead :: nat
  arrowsize :: nat
  arrowwidth :: nat
  arrowcolor :: string
  ax :: int
  ay :: int
  ann_font :: font
  bgcolor :: string
  bordercolor :: string
  borderwidth :: nat
  borderpad :: nat

text \<open>\<^verbatim>\<open>Array.prototype.indexOf\<close>: the first position of the element, or \<open>-1\<close>.\<close>

fun indexOf :: "'a list \<Rightarrow> 'a \<Rightarrow> int" where
  "indexOf [] y = - 1"
| "indexOf (x # xs) y =
     (if x = y then 0 else (let i = indexOf xs y in if i < 0 then - 1 else i + 1))"

text \<open>
  \<open>getCategoryValue\<close>; \<open>None\<close> is \<^verbatim>\<open>undefined\<close>, the element read past the end of the
  category's sequence. The three names looked up are not members of \<^verbatim>\<open>Object.prototype\<close>,
  and a sequence is truthy, so \<^verbatim>\<open>!data.categories[categoryName]\<close> holds exactly when the
  category is absent.
\<close>

definition getCategoryValue :: "dataset \<Rightarrow> string \<Rightarrow> int \<Rightarrow> int option" where
  "getCategoryValue d categoryName year =
     (case map_of (categories d) categoryName of
        None \<Rightarrow> Some 0
      | Some vs \<Rightarrow>
          (let yearIndex = indexOf (years d) year
           in if yearIndex \<ge> 0
              then (if nat yearIndex < length vs then Some (vs ! nat yearIndex) else None)
              else Some 0))"

text \<open>The object literal of the three \<^verbatim>\<open>annotations.push\<close> calls; they differ in the year,
  the value, the label and the colour of arrow and border.\<close>

definition annotation_at :: "int \<Rightarrow> int \<Rightarrow> string \<Rightarrow> string \<Rightarrow> annotation" where
  "annotation_at year v label colour =
     \<lparr> ann_x = year,
       ann_y = v,
       ann_text = label,
       showarrow = True,
       arrowhead = 2,
       arrowsize = 1,
       arrowwidth = 2,
       arrowcolor = colour,
       ax = 0,
       ay = - 40,
       ann_font = \<lparr> font_size = 11, font_color = ''#1a202c'',
                    font_family = ''-apple-system, BlinkMacSystemFont, sans-serif'' \<rparr>,
       bgcolor = ''rgba(255,255,255,0.9)'',
       bordercolor = colour,
       borderwidth = 1,
       borderpad = 4 \<rparr>"

text \<open>\<^verbatim>\<open>if (value > 0) annotations.push({...})\<close>; the comparison is false for \<^verbatim>\<open>undefined\<close>.\<close>

definition push_if_positive ::
  "int option \<Rightarrow> int \<Rightarrow> string \<Rightarrow> string \<Rightarrow> annotation list \<Rightarrow> annotation list" where
  "push_if_positive v year label colour annotations =
     (case v of
        Some n \<Rightarrow> if n > 0 then annotations @ [annotation_at year n label colour] else annotations
      | None \<Rightarrow> annotations)"

definition createDynamicAnnotations :: "dataset \<Rightarrow> annotation list" where
  "createDynamicAnnotations d =
     (let annotations = [];
          mlValue2024 = getCategoryValue d ''Machine Learning & AI'' 2024;
          annotations = push_if_positive mlValue2024 2024 ''LLMs<br>Emerge'' ''#FF6B6B'' annotations;
          socialValue2019 = getCategoryValue d ''Social Sciences & Demographics'' 2019;
          annotations = push_if_positive socialValue2019 2019 ''Census<br>Focus'' ''#ed8936'' annotations;
          covidValue2020 = getCategoryValue d ''Pandemic & Public Health'' 2020;
          annotations = push_if_positive covidValue2020 2020 ''COVID-19<br>Impact'' ''#48bb78'' annotations
      in annotations)"

text \<open>The fixed list of triggers the three blocks encode: category, year, label, colour.\<close>

definition annotation_triggers :: "(string \<times> int \<times> string \<times> string) list" where
  "annotation_triggers =
     [(''Machine Learning & AI'', 2024, ''LLMs<br>Emerge'', ''#FF6B6B''),
      (''Social Sciences & Demographics'', 2019, ''Census<br>Focus'', ''#ed8936''),
      (''Pandemic & Public Health'', 2020, ''COVID-19<br>Impact'', ''#48bb78'')]"

section \<open>Layout\<close>

text \<open>\<^verbatim>\<open>year.toString()\<close>.\<close>

definition show_int :: "int \<Rightarrow> string" where
  "show_int i = (if i < 0 then CHR ''-'' # show_nat (nat (- i)) else show_nat (nat i))"

text \<open>The layout object, with the fields that depend on the dataset; the constant styling
  (fonts, grid and legend colours, margins) is left out.\<close>

record chart_layout =
  title_text :: string
  xaxis_title :: string
  tickvals :: "int list"
  ticktext :: "string list"
  yaxis_title :: string
  layout_annotations :: "annotation list"

definition createChartLayout :: "dataset \<Rightarrow> chart_layout" where
  "createChartLayout d =
     \<lparr> title_text = ''Academic Topic Evolution (2013-2024)'',
       xaxis_title = ''Year'',
       tickvals = years d,
       ticktext = map (\<lambda>year. show_int year) (years d),
       yaxis_title = ''Number of Topics'',
       layout_annotations = createDynamicAnnotations d \<rparr>"

section \<open>Application state and the page\<close>

record app_state =
  data :: "json option"
  isLoading :: bool
  error :: "js_error option"
  chartInstance :: "string option"

definition AppState :: app_state where
  "AppState = \<lparr> data = None, isLoading = True, error = None, chartInstance = None \<rparr>"

text \<open>The content of the element \<^verbatim>\<open>evolution-chart\<close>: what the page shipped with, the
  loading placeholder, the error placeholder with its message, or the plot the charting
  library drew.\<close>

datatype region = StaticContent | LoadingPlaceholder | ErrorPlaceholder string | Plot

datatype log_entry =
    LogError string js_error
  | LogLoaded nat nat nat
  | LogText string

text \<open>Calls to the charting library, in the order they are made.\<close>

datatype plotly_call =
    NewPlot string "trace list" chart_layout plot_config
  | PlotsResize string

text \<open>The closure \<^verbatim>\<open>debounce(func, wait)\<close> returns: its delay and its variable
  \<^verbatim>\<open>timeout\<close>, here the time at which the pending timer fires (\<open>None\<close> when no timer is
  pending).\<close>

record debounced =
  wait :: nat
  timeout :: "nat option"

text \<open>The part of the browser the program touches: the application state, the chart element
  (\<open>None\<close> when the document has no such element), the console, the calls made to the
  charting library, the listeners registered for \<^verbatim>\<open>resize\<close>, and the time in
  milliseconds.\<close>

record world =
  app :: app_state
  chartElement :: "region option"
  console :: "log_entry list"
  plotly_calls :: "plotly_call list"
  resize_listeners :: "debounced list"
  clock :: nat

definition logError :: "string \<Rightarrow> js_error \<Rightarrow> world \<Rightarrow> world" where
  "logError context e w = w\<lparr> console := console w @ [LogError context e] \<rparr>"

definition showLoadingState :: "world \<Rightarrow> world" where
  "showLoadingState w =
     (case chartElement w of
        None \<Rightarrow> w
      | Some r \<Rightarrow> w\<lparr> chartElement := Some LoadingPlaceholder \<rparr>)"

definition showErrorState :: "string \<Rightarrow> world \<Rightarrow> world" where
  "showErrorState msg w =
     (case chartElement w of
        None \<Rightarrow> w
      | Some r \<Rightarrow> w\<lparr> chartElement := Some (ErrorPlaceholder msg) \<rparr>)"


section \<open>Loading and validating the dataset\<close>

text \<open>What \<^verbatim>\<open>fetch('data.json')\<close> and \<^verbatim>\<open>response.json()\<close> deliver.\<close>

record response =
  ok :: bool
  status :: nat
  statusText :: string
  body :: "js_error + json"

datatype fetch_outcome = Rejected js_error | Resolved response

text \<open>The consistency loop: the first entry whose value is not an array of the expected
  length stops the loop with its key.\<close>

fun check_entries :: "nat \<Rightarrow> (string \<times> json) list \<Rightarrow> string option" where
  "check_entries expectedLength [] = None"
| "check_entries expectedLength ((category, JArr vs) # es) =
     (if length vs \<noteq> expectedLength then Some category
      else check_entries expectedLength es)"
| "check_entries expectedLength ((category, v) # es) = Some category"

text \<open>The validation of the parsed content (the two checks between \<^verbatim>\<open>response.json()\<close>
  and \<^verbatim>\<open>AppState.data = data\<close>): the validated value, or the error thrown. Past the
  first check \<open>years\<close> is an array and \<open>categories\<close> is present, so the last branch of the
  inner case is never taken.\<close>

definition validate :: "json \<Rightarrow> js_error + json" where
  "validate d =
     (case field d ''years'' of
        Inl e \<Rightarrow> Inl e
      | Inr ys \<Rightarrow>
          (case field d ''categories'' of
             Inl e \<Rightarrow> Inl e
           | Inr cs \<Rightarrow>
               if \<not> truthy_opt ys \<or> \<not> truthy_opt cs \<or> \<not> isArray ys then
                 Inl (Error ''Invalid data format: missing required fields'')
               else
                 (case (ys, cs) of
                    (Some (JArr yl), Some c) \<Rightarrow>
                      (case Object_entries c of
                         Inl e \<Rightarrow> Inl e
                       | Inr es \<Rightarrow>
                           (case check_entries (length yl) es of
                              Some category \<Rightarrow>
                                Inl (Error (''Data inconsistency in category: '' @ category))
                            | None \<Rightarrow> Inr d))
                  | _ \<Rightarrow> Inl (Error ''Invalid data format: missing required fields''))))"

text \<open>The body of the \<^verbatim>\<open>try\<close> block after \<^verbatim>\<open>showLoadingState()\<close>: the value it reaches
  \<^verbatim>\<open>AppState.data = data\<close> with, or the error it throws.\<close>

definition load_try :: "fetch_outcome \<Rightarrow> js_error + json" where
  "load_try f =
     (case f of
        Rejected e \<Rightarrow> Inl e
      | Resolved r \<Rightarrow>
          if \<not> ok r then Inl (Error (''HTTP '' @ show_nat (status r) @ '': '' @ statusText r))
          else (case body r of Inl e \<Rightarrow> Inl e | Inr d \<Rightarrow> validate d))"

definition loadTopicData :: "fetch_outcome \<Rightarrow> world \<Rightarrow> json option \<times> world" where
  "loadTopicData f w =
     (let w1 = showLoadingState w in
      case load_try f of
        Inr d \<Rightarrow>
          (let ny = (case field d ''years'' of Inr (Some (JArr yl)) \<Rightarrow> length yl | _ \<Rightarrow> 0);
               nc = (case field d ''categories'' of
                       Inr (Some c) \<Rightarrow> (case Object_entries c of Inr es \<Rightarrow> length es | _ \<Rightarrow> 0)
                     | _ \<Rightarrow> 0);
               w2 = w1\<lparr> app := (app w1)\<lparr> data := Some d, isLoading := False, error := None \<rparr> \<rparr>;
               w3 = w2\<lparr> console := console w2 @ [LogLoaded ny nc (ny * nc)] \<rparr>
           in (Some d, w3))
      | Inl e \<Rightarrow>
          (let w2 = w1\<lparr> app := (app w1)\<lparr> isLoading := False, error := Some e \<rparr> \<rparr>;
               w3 = logError ''loadTopicData'' e w2;
               w4 = showErrorState (message e) w3
           in (None, w4)))"

section \<open>Rendering and resizing\<close>

text \<open>The function passed to \<open>debounce\<close> in \<open>renderChart\<close>.\<close>

definition resize_callback :: "world \<Rightarrow> world" where
  "resize_callback w =
     (case chartInstance (app w) of
        Some gd \<Rightarrow> w\<lparr> plotly_calls := plotly_calls w @ [PlotsResize ''evolution-chart''] \<rparr>
      | None \<Rightarrow> w)"

text \<open>\<open>debounce(func, wait)\<close>: a closure with no pending timer.\<close>

definition debounce :: "nat \<Rightarrow> debounced" where
  "debounce ms = \<lparr> wait = ms, timeout = None \<rparr>"

text \<open>\<open>executedFunction\<close>, called at time \<open>now\<close>: \<^verbatim>\<open>clearTimeout(timeout)\<close> drops the pending
  timer, \<^verbatim>\<open>timeout = setTimeout(later, wait)\<close> starts a new one.\<close>

definition executedFunction :: "nat \<Rightarrow> debounced \<Rightarrow> debounced" where
  "executedFunction now l = l\<lparr> timeout := Some (now + wait l) \<rparr>"

text \<open>
  \<open>renderChart\<close>. The first argument is what \<^verbatim>\<open>await Plotly.newPlot(...)\<close> delivers: the
  graph element, or the error it throws.
\<close>

definition renderChart :: "js_error + string \<Rightarrow> dataset \<Rightarrow> world \<Rightarrow> world" where
  "renderChart outcome d w =
     (let traces = createChartTraces d;
          layout' = createChartLayout d;
          w1 = w\<lparr> plotly_calls := plotly_calls w @
                  [NewPlot ''evolution-chart'' traces layout' (layout CHART_CONFIG)] \<rparr>
      in case outcome of
           Inr gd \<Rightarrow>
             (let w2 = w1\<lparr> app := (app w1)\<lparr> chartInstance := Some gd \<rparr>,
                           chartElement := map_option (\<lambda>r. Plot) (chartElement w1) \<rparr>;
                  w3 = w2\<lparr> console := console w2 @ [LogText ''[TopicEvolution] Chart rendered successfully''] \<rparr>
              in w3\<lparr> resize_listeners := resize_listeners w3 @ [debounce 250] \<rparr>)
         | Inl e \<Rightarrow>
             showErrorState ''Failed to render chart visualization'' (logError ''renderChart'' e w1))"

text \<open>What the browser does to the page after rendering: the viewport is resized, or time
  passes.\<close>

datatype event = Resize | Elapse nat

definition is_due :: "nat \<Rightarrow> debounced \<Rightarrow> bool" where
  "is_due t l = (case timeout l of Some deadline \<Rightarrow> deadline \<le> t | None \<Rightarrow> False)"

text \<open>A resize event calls every registered listener; when time passes, every timer that
  is due runs \<open>later\<close>, which calls \<open>func\<close>.\<close>

fun step :: "event \<Rightarrow> world \<Rightarrow> world" where
  "step Resize w =
     w\<lparr> resize_listeners := map (executedFunction (clock w)) (resize_listeners w) \<rparr>"
| "step (Elapse ms) w =
     (let t = clock w + ms;
          due = filter (is_due t) (resize_listeners w);
          w1 = w\<lparr> clock := t,
                  resize_listeners :=
                    map (\<lambda>l. if is_due t l then l\<lparr> timeout := None \<rparr> else l) (resize_listeners w) \<rparr>
      in fold (\<lambda>l. resize_callback) due w1)"

definition run :: "event list \<Rightarrow> world \<Rightarrow> world" where
  "run es w = fold step es w"

text \<open>A burst of resize events: one event, then after each of the given gaps another one,
  then quiet for the debounce delay.\<close>

definition burst :: "nat list \<Rightarrow> event list" where
  "burst gaps = Resize # concat (map (\<lambda>g. [Elapse g, Resize]) gaps) @ [Elapse 250]"

section \<open>The builders on the object graph\<close>

text \<open>
  In the program the dataset is an object graph: the builders receive a reference to it and
  return a reference to a new array, and \<^verbatim>\<open>sort\<close> and \<^verbatim>\<open>push\<close> write to arrays in
  place. Here arrays and objects are cells of a heap; a new cell gets the next address. An
  object literal that is stored in one property of a new object and in no variable
  (\<^verbatim>\<open>line\<close>, \<^verbatim>\<open>marker\<close>, \<^verbatim>\<open>font\<close>) is kept in place as \<open>VObj\<close>. A function
  yields \<open>None\<close> where a read does not find the shape of the data model.
\<close>

type_synonym addr = nat

datatype val =
    VUndefined
  | VNull
  | VBool bool
  | VNum int
  | VStr string
  | VBuiltin string
  | VRef addr
  | VArr "val list"
  | VObj "(string \<times> val) list"

datatype obj = Arr "val list" | Obj "(string \<times> val) list"

type_synonym heap = "obj list"

definition cell :: "heap \<Rightarrow> val \<Rightarrow> obj option" where
  "cell h v = (case v of VRef a \<Rightarrow> if a < length h then Some (h ! a) else None | _ \<Rightarrow> None)"

definition elems :: "heap \<Rightarrow> val \<Rightarrow> val list option" where
  "elems h v = (case cell h v of Some (Arr vs) \<Rightarrow> Some vs | _ \<Rightarrow> None)"

definition props :: "heap \<Rightarrow> val \<Rightarrow> (string \<times> val) list option" where
  "props h v = (case cell h v of Some (Obj ps) \<Rightarrow> Some ps | _ \<Rightarrow> None)"

fun num_of :: "val \<Rightarrow> int option" where
  "num_of (VNum n) = Some n"
| "num_of v = None"

definition read_nums :: "heap \<Rightarrow> val \<Rightarrow> int list option" where
  "read_nums h v = (case elems h v of Some vs \<Rightarrow> those (map num_of vs) | None \<Rightarrow> None)"

fun truthy_v :: "val \<Rightarrow> bool" where
  "truthy_v VUndefined = False"
| "truthy_v VNull = False"
| "truthy_v (VBool b) = b"
| "truthy_v (VNum n) = (n \<noteq> 0)"
| "truthy_v (VStr s) = (s \<noteq> [])"
| "truthy_v v = True"

text \<open>A new array or object; \<^verbatim>\<open>array.push(v)\<close>.\<close>

definition alloc :: "obj \<Rightarrow> heap \<Rightarrow> val \<times> heap" where
  "alloc ob h = (VRef (length h), h @ [ob])"

fun alloc_list :: "obj list \<Rightarrow> heap \<Rightarrow> val list \<times> heap" where
  "alloc_list [] h = ([], h)"
| "alloc_list (ob # obs) h =
     (let (r, h1) = alloc ob h; (rs, h2) = alloc_list obs h1 in (r # rs, h2))"

definition push :: "val \<Rightarrow> val \<Rightarrow> heap \<Rightarrow> heap option" where
  "push arr v h =
     (case arr of
        VRef a \<Rightarrow> (case elems h arr of Some vs \<Rightarrow> Some (h[a := Arr (vs @ [v])]) | None \<Rightarrow> None)
      | _ \<Rightarrow> None)"

subsection \<open>The dataset in the heap\<close>

fun prim_of :: "val \<Rightarrow> json option" where
  "prim_of VNull = Some JNull"
| "prim_of (VBool b) = Some (JBool b)"
| "prim_of (VNum n) = Some (JNum n)"
| "prim_of (VStr s) = Some (JStr s)"
| "prim_of v = None"

definition read_series :: "heap \<Rightarrow> (string \<times> val) list \<Rightarrow> (string \<times> int list) list option" where
  "read_series h cps = those (map (\<lambda>p. map_option (Pair (fst p)) (read_nums h (snd p))) cps)"

definition read_markers :: "(string \<times> val) list \<Rightarrow> (string \<times> json) list option" where
  "read_markers ms = those (map (\<lambda>p. map_option (Pair (fst p)) (prim_of (snd p))) ms)"

text \<open>The dataset a reference points to, where the cells have the shape of the data model
  (marker values being strings or other primitive values).\<close>

definition read_dataset :: "heap \<Rightarrow> val \<Rightarrow> dataset option" where
  "read_dataset h d =
     (case props h d of
        None \<Rightarrow> None
      | Some dps \<Rightarrow>
          (case (map_of dps ''years'', map_of dps ''categories'') of
             (Some yv, Some cv) \<Rightarrow>
               (case (read_nums h yv, props h cv) of
                  (Some ys, Some cps) \<Rightarrow>
                    (case read_series h cps of
                       None \<Rightarrow> None
                     | Some cs \<Rightarrow>
                         (case map_of dps ''markers'' of
                            None \<Rightarrow> Some \<lparr> years = ys, categories = cs, markers = None \<rparr>
                          | Some mv \<Rightarrow>
                              (case props h mv of
                                 None \<Rightarrow> None
                               | Some ms \<Rightarrow>
                                   (case read_markers ms of
                                      None \<Rightarrow> None
                                    | Some ml \<Rightarrow>
                                        Some \<lparr> years = ys, categories = cs, markers = Some ml \<rparr>))))
                | _ \<Rightarrow> None)
           | _ \<Rightarrow> None))"

subsection \<open>\<open>createChartTraces\<close>\<close>

text \<open>\<^verbatim>\<open>Object.entries(o)\<close>: a new two-element array per own property, and a new array of
  them.\<close>

definition Object_entries_heap :: "val \<Rightarrow> heap \<Rightarrow> (val \<times> heap) option" where
  "Object_entries_heap ov h =
     (case props h ov of
        None \<Rightarrow> None
      | Some ps \<Rightarrow>
          (let (pairs, h1) = alloc_list (map (\<lambda>(k, v). Arr [VStr k, v]) (own_entries ps)) h
           in Some (alloc (Arr pairs) h1)))"

text \<open>The callback of \<^verbatim>\<open>map\<close>: from the pair \<open>[name, values]\<close> the object
  \<open>{name, values, total}\<close>. It only reads; \<^verbatim>\<open>map\<close> stores the results in a new array.\<close>

definition total_record :: "heap \<Rightarrow> val \<Rightarrow> obj option" where
  "total_record h pair =
     (case elems h pair of
        Some [VStr n, vs] \<Rightarrow>
          (case read_nums h vs of
             Some ns \<Rightarrow>
               Some (Obj [(''name'', VStr n), (''values'', vs), (''total'', VNum (total ns))])
           | None \<Rightarrow> None)
      | _ \<Rightarrow> None)"

definition array_map :: "(heap \<Rightarrow> val \<Rightarrow> obj option) \<Rightarrow> val \<Rightarrow> heap \<Rightarrow> (val \<times> heap) option" where
  "array_map f arr h =
     (case elems h arr of
        None \<Rightarrow> None
      | Some vs \<Rightarrow>
          (case those (map (f h) vs) of
             None \<Rightarrow> None
           | Some obs \<Rightarrow> (let (rs, h1) = alloc_list obs h in Some (alloc (Arr rs) h1))))"

text \<open>\<^verbatim>\<open>.sort((a, b) => b.total - a.total)\<close>: the array cell is overwritten with its
  elements in sorted order.\<close>

definition total_of :: "heap \<Rightarrow> val \<Rightarrow> int option" where
  "total_of h v =
     (case props h v of
        Some ps \<Rightarrow> (case map_of ps ''total'' of Some (VNum t) \<Rightarrow> Some t | _ \<Rightarrow> None)
      | None \<Rightarrow> None)"

definition array_sort :: "val \<Rightarrow> heap \<Rightarrow> heap option" where
  "array_sort arr h =
     (case arr of
        VRef a \<Rightarrow>
          (case elems h arr of
             None \<Rightarrow> None
           | Some vs \<Rightarrow>
               (case those (map (total_of h) vs) of
                  None \<Rightarrow> None
                | Some ts \<Rightarrow>
                    Some (h[a := Arr (map fst (sort_by (\<lambda>a b. snd b - snd a) (zip vs ts)))])))
      | _ \<Rightarrow> None)"

text \<open>\<^verbatim>\<open>data.markers && data.markers[name] ? data.markers[name] : 'circle'\<close>.\<close>

definition symbol_heap :: "heap \<Rightarrow> (string \<times> val) list \<Rightarrow> string \<Rightarrow> val option" where
  "symbol_heap h dps n =
     (case map_of dps ''markers'' of
        None \<Rightarrow> Some (VStr ''circle'')
      | Some mv \<Rightarrow>
          (case props h mv of
             None \<Rightarrow> None
           | Some ms \<Rightarrow>
               (let r = (case map_of ms n of
                           Some v \<Rightarrow> v
                         | None \<Rightarrow> if n \<in> set Object_prototype then VBuiltin n else VUndefined)
                in Some (if truthy_v r then r else VStr ''circle''))))"

text \<open>The object literal of \<^verbatim>\<open>traces.push({...})\<close>.\<close>

definition trace_literal :: "val \<Rightarrow> val \<Rightarrow> string \<Rightarrow> val \<Rightarrow> string \<Rightarrow> obj" where
  "trace_literal yv vs n symbol color =
     Obj [(''x'', yv),
          (''y'', vs),
          (''mode'', VStr ''lines+markers''),
          (''name'', VStr n),
          (''type'', VStr ''scatter''),
          (''line'', VObj [(''width'', VNum 3), (''color'', VStr color),
                          (''shape'', VStr ''linear'')]),
          (''marker'', VObj [(''size'', VNum 10), (''color'', VStr color),
                            (''symbol'', symbol),
                            (''line'', VObj [(''width'', VNum 2),
                                            (''color'', VStr ''#ffffff'')])]),
          (''hovertemplate'',
             VStr (''<b>%{fullData.name}</b><br>'' @ ''Year: %{x}<br>'' @
                   ''Topics: %{y}<br>'' @ ''<extra></extra>'')),
          (''connectgaps'', VBool False)]"

text \<open>The object the \<^verbatim>\<open>forEach\<close> callback builds for the element \<open>c\<close> at \<open>colorIndex\<close>.\<close>

definition trace_object :: "heap \<Rightarrow> val \<Rightarrow> val \<Rightarrow> nat \<Rightarrow> obj option" where
  "trace_object h d c colorIndex =
     (case (props h c, props h d) of
        (Some cps, Some dps) \<Rightarrow>
          (case (map_of cps ''name'', map_of cps ''values'', map_of dps ''years'') of
             (Some (VStr n), Some vs, Some yv) \<Rightarrow>
               (case symbol_heap h dps n of
                  None \<Rightarrow> None
                | Some symbol \<Rightarrow>
                    (let color = colors CHART_CONFIG ! (colorIndex mod length (colors CHART_CONFIG))
                     in Some (trace_literal yv vs n symbol color)))
           | _ \<Rightarrow> None)
      | _ \<Rightarrow> None)"

text \<open>\<^verbatim>\<open>forEach\<close>: per element the new trace object, \<^verbatim>\<open>traces.push\<close>, \<^verbatim>\<open>colorIndex++\<close>.\<close>

fun forEach_push :: "val \<Rightarrow> val \<Rightarrow> val list \<Rightarrow> heap \<times> nat \<Rightarrow> (heap \<times> nat) option" where
  "forEach_push d traces [] (h, colorIndex) = Some (h, colorIndex)"
| "forEach_push d traces (c # cs) (h, colorIndex) =
     (case trace_object h d c colorIndex of
        None \<Rightarrow> None
      | Some ob \<Rightarrow>
          (let (t, h1) = alloc ob h
           in case push traces t h1 of
                None \<Rightarrow> None
              | Some h2 \<Rightarrow> forEach_push d traces cs (h2, colorIndex + 1)))"

definition createChartTraces_heap :: "heap \<Rightarrow> val \<Rightarrow> (val \<times> heap) option" where
  "createChartTraces_heap h d =
     (let (traces, h1) = alloc (Arr []) h
      in case props h1 d of
           None \<Rightarrow> None
         | Some dps \<Rightarrow>
             (case map_of dps ''categories'' of
                None \<Rightarrow> None
              | Some cv \<Rightarrow>
                  (case Object_entries_heap cv h1 of
                     None \<Rightarrow> None
                   | Some (entries, h2) \<Rightarrow>
                       (case array_map total_record entries h2 of
                          None \<Rightarrow> None
                        | Some (categoryTotals', h3) \<Rightarrow>
                            (case array_sort categoryTotals' h3 of
                               None \<Rightarrow> None
                             | Some h4 \<Rightarrow>
                                 (case elems h4 categoryTotals' of
                                    None \<Rightarrow> None
                                  | Some cs \<Rightarrow>
                                      (case forEach_push d traces cs (h4, 0) of
                                         None \<Rightarrow> None
                                       | Some (h5, colorIndex) \<Rightarrow> Some (traces, h5))))))))"

subsection \<open>\<open>createDynamicAnnotations\<close>\<close>

text \<open>\<open>getCategoryValue\<close>: the number \<open>0\<close>, the element, or \<^verbatim>\<open>undefined\<close> past the end.\<close>

definition getCategoryValue_heap :: "heap \<Rightarrow> val \<Rightarrow> string \<Rightarrow> int \<Rightarrow> val option" where
  "getCategoryValue_heap h d categoryName year =
     (case props h d of
        None \<Rightarrow> None
      | Some dps \<Rightarrow>
          (case (map_of dps ''categories'', map_of dps ''years'') of
             (Some cv, Some yv) \<Rightarrow>
               (case props h cv of
                  None \<Rightarrow> None
                | Some cps \<Rightarrow>
                    (case map_of cps categoryName of
                       None \<Rightarrow> Some (VNum 0)
                     | Some v \<Rightarrow>
                         (case (read_nums h yv, read_nums h v) of
                            (Some ys, Some vs) \<Rightarrow>
                              (let yearIndex = indexOf ys year
                               in if yearIndex \<ge> 0
                                  then (if nat yearIndex < length vs
                                        then Some (VNum (vs ! nat yearIndex)) else Some VUndefined)
                                  else Some (VNum 0))
                          | _ \<Rightarrow> None)))
           | _ \<Rightarrow> None))"

definition annotation_object :: "int \<Rightarrow> val \<Rightarrow> string \<Rightarrow> string \<Rightarrow> obj" where
  "annotation_object year v label colour =
     Obj [(''x'', VNum year),
          (''y'', v),
          (''text'', VStr label),
          (''showarrow'', VBool True),
          (''arrowhead'', VNum 2),
          (''arrowsize'', VNum 1),
          (''arrowwidth'', VNum 2),
          (''arrowcolor'', VStr colour),
          (''ax'', VNum 0),
          (''ay'', VNum (- 40)),
          (''font'', VObj [(''size'', VNum 11), (''color'', VStr ''#1a202c''),
                          (''family'', VStr ''-apple-system, BlinkMacSystemFont, sans-serif'')]),
          (''bgcolor'', VStr ''rgba(255,255,255,0.9)''),
          (''bordercolor'', VStr colour),
          (''borderwidth'', VNum 1),
          (''borderpad'', VNum 4)]"

definition push_if_positive_heap ::
  "val \<Rightarrow> val \<Rightarrow> int \<Rightarrow> string \<Rightarrow> string \<Rightarrow> heap \<Rightarrow> heap option" where
  "push_if_positive_heap annotations v year label colour h =
     (case v of
        VNum n \<Rightarrow>
          if n > 0
          then (let (a, h1) = alloc (annotation_object year v label colour) h
                in push annotations a h1)
          else Some h
      | _ \<Rightarrow> Some h)"

definition createDynamicAnnotations_heap :: "heap \<Rightarrow> val \<Rightarrow> (val \<times> heap) option" where
  "createDynamicAnnotations_heap h d =
     (let (annotations, h1) = alloc (Arr []) h
      in case getCategoryValue_heap h1 d ''Machine Learning & AI'' 2024 of
           None \<Rightarrow> None
         | Some mlValue2024 \<Rightarrow>
             (case push_if_positive_heap annotations mlValue2024 2024 ''LLMs<br>Emerge'' ''#FF6B6B'' h1 of
                None \<Rightarrow> None
              | Some h2 \<Rightarrow>
                  (case getCategoryValue_heap h2 d ''Social Sciences & Demographics'' 2019 of
                     None \<Rightarrow> None
                   | Some socialValue2019 \<Rightarrow>
                       (case push_if_positive_heap annotations socialValue2019 2019
                               ''Census<br>Focus'' ''#ed8936'' h2 of
                          None \<Rightarrow> None
                        | Some h3 \<Rightarrow>
                            (case getCategoryValue_heap h3 d ''Pandemic & Public Health'' 2020 of
                               None \<Rightarrow> None
                             | Some covidValue2020 \<Rightarrow>
                                 (case push_if_positive_heap annotations covidValue2020 2020
                                         ''COVID-19<br>Impact'' ''#48bb78'' h3 of
                                    None \<Rightarrow> None
                                  | Some h4 \<Rightarrow> Some (annotations, h4)))))))"

subsection \<open>Reading a result back\<close>

text \<open>The value a reference stands for, with every reference replaced by the content of
  its cell, down to the given depth: what a serialisation of the value shows.\<close>

fun reify :: "nat \<Rightarrow> heap \<Rightarrow> val \<Rightarrow> val option" where
  "reify 0 h v = None"
| "reify (Suc n) h (VRef a) =
     (if a < length h
      then (case h ! a of
              Arr vs \<Rightarrow> map_option VArr (those (map (reify n h) vs))
            | Obj ps \<Rightarrow>
                map_option VObj (those (map (\<lambda>p. map_option (Pair (fst p)) (reify n h (snd p))) ps)))
      else None)"
| "reify (Suc n) h (VArr vs) = map_option VArr (those (map (reify n h) vs))"
| "reify (Suc n) h (VObj ps) =
     map_option VObj (those (map (\<lambda>p. map_option (Pair (fst p)) (reify n h (snd p))) ps))"
| "reify (Suc n) h v = Some v"

text \<open>The typed results of the builders, as such values.\<close>

fun encode_prim :: "json \<Rightarrow> val" where
  "encode_prim JNull = VNull"
| "encode_prim (JBool b) = VBool b"
| "encode_prim (JNum n) = VNum n"
| "encode_prim (JStr s) = VStr s"
| "encode_prim v = VUndefined"

fun encode_symbol :: "jsval \<Rightarrow> val" where
  "encode_symbol Undefined = VUndefined"
| "encode_symbol (Val v) = encode_prim v"
| "encode_symbol (Inherited k) = VBuiltin k"

definition encode_trace :: "trace \<Rightarrow> val" where
  "encode_trace t =
     VObj [(''x'', VArr (map VNum (trace_x t))),
           (''y'', VArr (map VNum (trace_y t))),
           (''mode'', VStr (trace_mode t)),
           (''name'', VStr (trace_name t)),
           (''type'', VStr (trace_type t)),
           (''line'', VObj [(''width'', VNum (int (line_width (trace_line t)))),
                           (''color'', VStr (line_color (trace_line t))),
                           (''shape'', VStr (line_shape (trace_line t)))]),
           (''marker'', VObj [(''size'', VNum (int (marker_size (trace_marker t)))),
                             (''color'', VStr (marker_color (trace_marker t))),
                             (''symbol'', encode_symbol (marker_symbol (trace_marker t))),
                             (''line'', VObj [
                                (''width'', VNum (int (outline_width (marker_line (trace_marker t))))),
                                (''color'', VStr (outline_color (marker_line (trace_marker t))))])]),
           (''hovertemplate'', VStr (hovertemplate t)),
           (''connectgaps'', VBool (connectgaps t))]"

definition encode_annotation :: "annotation \<Rightarrow> val" where
  "encode_annotation a =
     VObj [(''x'', VNum (ann_x a)),
           (''y'', VNum (ann_y a)),
           (''text'', VStr (ann_text a)),
           (''showarrow'', VBool (showarrow a)),
           (''arrowhead'', VNum (int (arrowhead a))),
           (''arrowsize'', VNum (int (arrowsize a))),
           (''arrowwidth'', VNum (int (arrowwidth a))),
           (''arrowcolor'', VStr (arrowcolor a)),
           (''ax'', VNum (ax a)),
           (''ay'', VNum (ay a)),
           (''font'', VObj [(''size'', VNum (int (font_size (ann_font a)))),
                           (''color'', VStr (font_color (ann_font a))),
                           (''family'', VStr (font_family (ann_font a)))]),
           (''bgcolor'', VStr (bgcolor a)),
           (''bordercolor'', VStr (bordercolor a)),
           (''borderwidth'', VNum (int (borderwidth a))),
           (''borderpad'', VNum (int (borderpad a)))]"

subsection \<open>Frames\<close>

text \<open>\<open>h'\<close> has every cell of \<open>h\<close>, unchanged except possibly the one at \<open>ta\<close>.\<close>

definition stable :: "addr \<Rightarrow> heap \<Rightarrow> heap \<Rightarrow> bool" where
  "stable ta h h' = (length h \<le> length h' \<and> (\<forall>a < length h. a \<noteq> ta \<longrightarrow> h' ! a = h ! a))"

text \<open>What \<open>getCategoryValue\<close> returns, as a value; the cell of an annotation.\<close>

fun encode_value :: "int option \<Rightarrow> val" where
  "encode_value None = VUndefined"
| "encode_value (Some n) = VNum n"

definition annotation_cell :: "annotation \<Rightarrow> obj" where
  "annotation_cell a = annotation_object (ann_x a) (VNum (ann_y a)) (ann_text a) (arrowcolor a)"

section \<open>Concrete inputs\<close>

text \<open>The page before initialisation, and a successful HTTP response carrying a parsed body.\<close>

definition page :: world where
  "page = \<lparr> app = AppState, chartElement = Some StaticContent, console = [],
            plotly_calls = [], resize_listeners = [], clock = 0 \<rparr>"

definition http_ok :: "json \<Rightarrow> fetch_outcome" where
  "http_ok d = Resolved \<lparr> ok = True, status = 200, statusText = ''OK'', body = Inr d \<rparr>"

text \<open>Two years with two categories; three years with a category of two counts; a
  categories field that is a sequence; years out of order with a negative count.\<close>

definition file_two_categories :: json where
  "file_two_categories =
     JObj [(''years'', JArr [JNum 2016, JNum 2017]),
           (''categories'', JObj [(''AI'', JArr [JNum 2, JNum 5]),
                                  (''Finance'', JArr [JNum 3, JNum 3])])]"

definition file_short_category :: json where
  "file_short_category =
     JObj [(''years'', JArr [JNum 2016, JNum 2017, JNum 2018]),
           (''categories'', JObj [(''AI'', JArr [JNum 2, JNum 5])])]"

definition file_categories_sequence :: json where
  "file_categories_sequence =
     JObj [(''years'', JArr [JNum 2016]),
           (''categories'', JArr [JArr [JNum 5]])]"

definition file_unordered_negative :: json where
  "file_unordered_negative =
     JObj [(''years'', JArr [JNum 2017, JNum 2016]),
           (''categories'', JObj [(''AI'', JArr [JNum (- 1), JNum 5])])]"

text \<open>Datasets: totals \<open>A:10, B:30, C:30\<close>; two tied categories of which the later one has
  an array index as its name; twenty-one categories; a markers mapping with a symbol, an
  empty symbol and a missing key; a category named like a member of \<^verbatim>\<open>Object.prototype\<close>.\<close>

definition dataset_ABC :: dataset where
  "dataset_ABC =
     \<lparr> years = [2024],
       categories = [(''A'', [10]), (''B'', [30]), (''C'', [30])],
       markers = None \<rparr>"


definition dataset_21 :: dataset where
  "dataset_21 =
     \<lparr> years = [2024],
       categories = map (\<lambda>i. (''T'' @ show_nat i, [int i])) [0..<21],
       markers = None \<rparr>"

definition dataset_markers :: dataset where
  "dataset_markers =
     \<lparr> years = [2016, 2017],
       categories = [(''AI'', [2, 5]), (''Finance'', [3, 3]), (''Other'', [1, 1])],
       markers = Some [(''AI'', JStr ''star''), (''Finance'', JStr '''')] \<rparr>"

definition dataset_toString :: dataset where
  "dataset_toString =
     \<lparr> years = [2024],
       categories = [(''toString'', [1])],
       markers = Some [] \<rparr>"

text \<open>The object graph of a dataset with two tied categories and a markers mapping: the
  cells of the two count arrays, the years, the categories, the markers and the dataset
  object, which is at address 5.\<close>

definition heap_two :: heap where
  "heap_two =
     [Arr [VNum 2, VNum 5],
      Arr [VNum 4, VNum 3],
      Arr [VNum 2016, VNum 2017],
      Obj [(''AI'', VRef 0), (''Finance'', VRef 1)],
      Obj [(''Finance'', VStr ''star'')],
      Obj [(''years'', VRef 2), (''categories'', VRef 3), (''markers'', VRef 4)]]"

definition dataset_two :: dataset where
  "dataset_two =
     \<lparr> years = [2016, 2017],
       categories = [(''AI'', [2, 5]), (''Finance'', [4, 3])],
       markers = Some [(''Finance'', JStr ''star'')] \<rparr>"

text \<open>A dataset with a positive count for the first trigger, a zero count at the year of
  the third trigger, and no category for the second.\<close>

definition dataset_triggers :: dataset where
  "dataset_triggers =
     \<lparr> years = [2019, 2020, 2024],
       categories = [(''Machine Learning & AI'', [1, 2, 9]),
                     (''Pandemic & Public Health'', [4, 0, 3])],
       markers = None \<rparr>"

section \<open>Properties of the loader\<close>

lemma check_entries_None:
  "check_entries n es = None \<longleftrightarrow> list_all (\<lambda>p. \<exists>vs. snd p = JArr vs \<and> length vs = n) es"
  by (induction n es rule: check_entries.induct) auto

lemma check_entries_Some:
  "check_entries n es = Some k \<Longrightarrow>
     \<exists>v. (k, v) \<in> set es \<and> (\<forall>vs. v = JArr vs \<longrightarrow> length vs \<noteq> n)"
  by (induction n es rule: check_entries.induct) (auto split: if_splits)

lemma check_entries_offending:
  "(k, v) \<in> set es \<Longrightarrow> (\<forall>vs. v = JArr vs \<longrightarrow> length vs \<noteq> n) \<Longrightarrow> check_entries n es \<noteq> None"
  by (induction n es rule: check_entries.induct) (auto split: if_splits)

lemma loadTopicData_failure:
  assumes "load_try f = Inl e"
  shows "fst (loadTopicData f w) = None"
    and "error (app (snd (loadTopicData f w))) = Some e"
    and "data (app (snd (loadTopicData f w))) = data (app w)"
    and "chartElement w \<noteq> None \<Longrightarrow>
           chartElement (snd (loadTopicData f w)) = Some (ErrorPlaceholder (message e))"
  using assms
  by (auto simp: loadTopicData_def Let_def logError_def showErrorState_def showLoadingState_def
      split: option.splits)

lemma loadTopicData_success:
  assumes "load_try f = Inr d"
  shows "fst (loadTopicData f w) = Some d"
    and "data (app (snd (loadTopicData f w))) = Some d"
    and "error (app (snd (loadTopicData f w))) = None"
  using assms
  by (auto simp: loadTopicData_def Let_def showLoadingState_def split: option.splits)

lemma loadTopicData_Some_iff:
  "fst (loadTopicData f w) = Some d \<longleftrightarrow> load_try f = Inr d"
  by (cases "load_try f") (auto simp: loadTopicData_failure loadTopicData_success)

lemma validate_inconsistent:
  assumes "field d ''years'' = Inr (Some (JArr yl))"
    and "field d ''categories'' = Inr (Some c)" and "truthy c"
    and "Object_entries c = Inr es"
    and "(k, v) \<in> set es" and "\<forall>vs. v = JArr vs \<longrightarrow> length vs \<noteq> length yl"
  shows "\<exists>k' v'. (k', v') \<in> set es \<and> (\<forall>vs. v' = JArr vs \<longrightarrow> length vs \<noteq> length yl) \<and>
           check_entries (length yl) es = Some k' \<and>
           validate d = Inl (Error (''Data inconsistency in category: '' @ k'))"
proof -
  from check_entries_offending [OF assms(5,6)]
  obtain k' where k': "check_entries (length yl) es = Some k'" by auto
  from check_entries_Some [OF k']
  obtain v' where "(k', v') \<in> set es" "\<forall>vs. v' = JArr vs \<longrightarrow> length vs \<noteq> length yl" by auto
  moreover have "validate d = Inl (Error (''Data inconsistency in category: '' @ k'))"
    using assms(1-4) k' by (simp add: validate_def)
  ultimately show ?thesis using k' by blast
qed

lemma validate_schema:
  assumes "field d ''years'' = Inr ys" and "field d ''categories'' = Inr cs"
    and "\<not> truthy_opt ys \<or> \<not> isArray ys \<or> \<not> truthy_opt cs"
  shows "validate d = Inl (Error ''Invalid data format: missing required fields'')"
  using assms by (auto simp: validate_def)

lemma validate_Inr:
  assumes "validate d = Inr d'"
  shows "d' = d \<and> (\<exists>yl c es. field d ''years'' = Inr (Some (JArr yl)) \<and>
           field d ''categories'' = Inr (Some c) \<and> truthy c \<and> Object_entries c = Inr es \<and>
           list_all (\<lambda>p. \<exists>vs. snd p = JArr vs \<and> length vs = length yl) es)"
  using assms
  by (auto simp: validate_def check_entries_None
      split: sum.splits if_splits option.splits json.splits)

lemma load_try_Resolved:
  "ok r \<Longrightarrow> body r = Inr d \<Longrightarrow> load_try (Resolved r) = validate d"
  by (simp add: load_try_def)

lemma load_try_Inr:
  "load_try f = Inr d \<Longrightarrow> \<exists>r. f = Resolved r \<and> ok r \<and> body r = Inr d \<and> validate d = Inr d"
  by (auto simp: load_try_def dest: validate_Inr split: fetch_outcome.splits if_splits sum.splits)

lemma validate_schema_only:
  assumes "validate d = Inl (Error ''Invalid data format: missing required fields'')"
    and "field d ''years'' = Inr ys" and "field d ''categories'' = Inr cs"
  shows "\<not> truthy_opt ys \<or> \<not> isArray ys \<or> \<not> truthy_opt cs"
proof (rule ccontr)
  assume "\<not> ?thesis"
  then have t: "truthy_opt ys" "isArray ys" "truthy_opt cs" by auto
  then obtain yl c where ys: "ys = Some (JArr yl)" and cs: "cs = Some c" "truthy c"
    by (cases ys; cases cs) (auto elim: isArray.elims)
  then have "c \<noteq> JNull" by auto
  then obtain es where es: "Object_entries c = Inr es"
    by (cases c) auto
  show False
    using assms ys cs es by (auto simp: validate_def split: option.splits)
qed

text \<open>
  C3. When the retrieved content has a \<open>years\<close> sequence and some entry of its
  \<open>categories\<close> is not a sequence or has a length different from that of \<open>years\<close>,
  the loader fails: it returns \<^verbatim>\<open>null\<close>, the error it records has the message
  \<^verbatim>\<open>Data inconsistency in category: \<close> followed by the name of an offending category
  (the first one in enumeration order), and \<open>AppState.data\<close> is left as it was.
\<close>

theorem load_consistency_error:
  assumes "ok r" and "body r = Inr d"
    and "field d ''years'' = Inr (Some (JArr yl))"
    and "field d ''categories'' = Inr (Some c)" and "truthy c"
    and "Object_entries c = Inr es"
    and "(k, v) \<in> set es" and "\<forall>vs. v = JArr vs \<longrightarrow> length vs \<noteq> length yl"
  shows "\<exists>k' v'. (k', v') \<in> set es \<and> (\<forall>vs. v' = JArr vs \<longrightarrow> length vs \<noteq> length yl) \<and>
           check_entries (length yl) es = Some k' \<and>
           fst (loadTopicData (Resolved r) w) = None \<and>
           error (app (snd (loadTopicData (Resolved r) w))) =
             Some (Error (''Data inconsistency in category: '' @ k')) \<and>
           data (app (snd (loadTopicData (Resolved r) w))) = data (app w)"
proof -
  from validate_inconsistent [OF assms(3-8)]
  obtain k' v' where kv: "(k', v') \<in> set es" "\<forall>vs. v' = JArr vs \<longrightarrow> length vs \<noteq> length yl"
    "check_entries (length yl) es = Some k'"
    and v: "validate d = Inl (Error (''Data inconsistency in category: '' @ k'))"
    by blast
  have "load_try (Resolved r) = Inl (Error (''Data inconsistency in category: '' @ k'))"
    using load_try_Resolved [OF assms(1,2)] v by simp
  from loadTopicData_failure(1-3) [OF this] kv show ?thesis by blast
qed

theorem load_consistency_error_witness:
  "\<exists>k' v'. (k', v') \<in> set [(''AI'', JArr [JNum 2, JNum 5])] \<and>
     (\<forall>vs. v' = JArr vs \<longrightarrow> length vs \<noteq> length [JNum 2016, JNum 2017, JNum 2018]) \<and>
     check_entries (length [JNum 2016, JNum 2017, JNum 2018]) [(''AI'', JArr [JNum 2, JNum 5])]
       = Some k' \<and>
     fst (loadTopicData (http_ok file_short_category) page) = None \<and>
     error (app (snd (loadTopicData (http_ok file_short_category) page))) =
       Some (Error (''Data inconsistency in category: '' @ k')) \<and>
     data (app (snd (loadTopicData (http_ok file_short_category) page))) = data (app page)"
  unfolding http_ok_def
  by (rule load_consistency_error
        [where d = file_short_category and c = "JObj [(''AI'', JArr [JNum 2, JNum 5])]"
           and k = "''AI''" and v = "JArr [JNum 2, JNum 5]"])
     (simp_all add: file_short_category_def own_entries_def is_array_index_def is_digit_def)

text \<open>
  C5, as the code has it. A retrieved value other than \<^verbatim>\<open>null\<close> fails with the schema
  error \<^verbatim>\<open>Invalid data format: missing required fields\<close> exactly when \<open>years\<close> is absent,
  falsy or not a sequence, or \<open>categories\<close> is absent or falsy; the loader then returns
  \<^verbatim>\<open>null\<close> and leaves \<open>AppState.data\<close> as it was. The shape of a truthy \<open>categories\<close> is
  not part of the check.
\<close>

theorem load_schema_error:
  assumes "ok r" and "body r = Inr d"
    and "field d ''years'' = Inr ys" and "field d ''categories'' = Inr cs"
  shows "(\<not> truthy_opt ys \<or> \<not> isArray ys \<or> \<not> truthy_opt cs) \<longleftrightarrow>
           (fst (loadTopicData (Resolved r) w) = None \<and>
            error (app (snd (loadTopicData (Resolved r) w))) =
              Some (Error ''Invalid data format: missing required fields'') \<and>
            data (app (snd (loadTopicData (Resolved r) w))) = data (app w))"
proof
  assume "\<not> truthy_opt ys \<or> \<not> isArray ys \<or> \<not> truthy_opt cs"
  from validate_schema [OF assms(3,4) this]
  have "load_try (Resolved r) = Inl (Error ''Invalid data format: missing required fields'')"
    using load_try_Resolved [OF assms(1,2)] by simp
  from loadTopicData_failure(1-3) [OF this]
  show "fst (loadTopicData (Resolved r) w) = None \<and>
        error (app (snd (loadTopicData (Resolved r) w))) =
          Some (Error ''Invalid data format: missing required fields'') \<and>
        data (app (snd (loadTopicData (Resolved r) w))) = data (app w)"
    by blast
next
  assume a: "fst (loadTopicData (Resolved r) w) = None \<and>
        error (app (snd (loadTopicData (Resolved r) w))) =
          Some (Error ''Invalid data format: missing required fields'') \<and>
        data (app (snd (loadTopicData (Resolved r) w))) = data (app w)"
  show "\<not> truthy_opt ys \<or> \<not> isArray ys \<or> \<not> truthy_opt cs"
  proof (cases "load_try (Resolved r)")
    case (Inl e)
    from loadTopicData_failure(2) [OF Inl] a
    have "e = Error ''Invalid data format: missing required fields''" by simp
    with Inl load_try_Resolved [OF assms(1,2)]
    have "validate d = Inl (Error ''Invalid data format: missing required fields'')" by simp
    then show ?thesis
      using assms(3,4) by (rule validate_schema_only)
  next
    case (Inr d')
    from loadTopicData_success(1) [OF Inr] a show ?thesis by simp
  qed
qed

theorem load_schema_error_witness:
  "field (JObj [(''years'', JStr ''2016''), (''categories'', JObj [])]) ''years'' =
     Inr (Some (JStr ''2016'')) \<and>
   fst (loadTopicData (http_ok (JObj [(''years'', JStr ''2016''), (''categories'', JObj [])])) page) = None \<and>
   error (app (snd (loadTopicData
       (http_ok (JObj [(''years'', JStr ''2016''), (''categories'', JObj [])])) page))) =
     Some (Error ''Invalid data format: missing required fields'') \<and>
   data (app (snd (loadTopicData
       (http_ok (JObj [(''years'', JStr ''2016''), (''categories'', JObj [])])) page))) =
     data (app page)"
proof -
  have "\<not> truthy_opt (Some (JStr ''2016'')) \<or> \<not> isArray (Some (JStr ''2016'')) \<or>
        \<not> truthy_opt (Some (JObj []))"
    by simp
  with load_schema_error
    [where d = "JObj [(''years'', JStr ''2016''), (''categories'', JObj [])]"
       and ys = "Some (JStr ''2016'')" and cs = "Some (JObj [])"
       and r = "\<lparr> ok = True, status = 200, statusText = ''OK'',
                  body = Inr (JObj [(''years'', JStr ''2016''), (''categories'', JObj [])]) \<rparr>"
       and w = page]
  show ?thesis unfolding http_ok_def by simp
qed

theorem load_schema_error_counterexample:
  "field file_categories_sequence ''categories'' = Inr (Some (JArr [JArr [JNum 5]])) \<and>
   fst (loadTopicData (http_ok file_categories_sequence) page) = Some file_categories_sequence \<and>
   data (app (snd (loadTopicData (http_ok file_categories_sequence) page))) =
     Some file_categories_sequence"
  by (simp add: file_categories_sequence_def http_ok_def page_def loadTopicData_def load_try_def
      validate_def showLoadingState_def Let_def show_nat.simps digit_def)

text \<open>
  C8, as the code has it. When the loader succeeds, the value it returns and stores has a
  \<open>years\<close> sequence and a truthy \<open>categories\<close>, and every enumerated entry of
  \<open>categories\<close> is a sequence as long as \<open>years\<close>. Non-emptiness, the order of the years
  and the sign of the counts are not checked.
\<close>

theorem load_success_shape:
  assumes "fst (loadTopicData f w) = Some d"
  shows "\<exists>yl c es. field d ''years'' = Inr (Some (JArr yl)) \<and>
           field d ''categories'' = Inr (Some c) \<and> truthy c \<and> Object_entries c = Inr es \<and>
           list_all (\<lambda>p. \<exists>vs. snd p = JArr vs \<and> length vs = length yl) es \<and>
           data (app (snd (loadTopicData f w))) = Some d"
proof -
  from assms have l: "load_try f = Inr d" by (simp add: loadTopicData_Some_iff)
  from load_try_Inr [OF l] have "validate d = Inr d" by blast
  from validate_Inr [OF this] loadTopicData_success(2) [OF l] show ?thesis by blast
qed

theorem load_success_shape_witness:
  "fst (loadTopicData (http_ok file_two_categories) page) = Some file_two_categories \<and>
   (\<exists>yl c es. field file_two_categories ''years'' = Inr (Some (JArr yl)) \<and>
      field file_two_categories ''categories'' = Inr (Some c) \<and> truthy c \<and>
      Object_entries c = Inr es \<and>
      list_all (\<lambda>p. \<exists>vs. snd p = JArr vs \<and> length vs = length yl) es \<and>
      data (app (snd (loadTopicData (http_ok file_two_categories) page))) =
        Some file_two_categories)"
proof -
  have l: "fst (loadTopicData (http_ok file_two_categories) page) = Some file_two_categories"
    by (simp add: file_two_categories_def http_ok_def page_def loadTopicData_def load_try_def
        validate_def showLoadingState_def Let_def own_entries_def is_array_index_def is_digit_def)
  from load_success_shape [OF l] l show ?thesis by blast
qed

theorem load_success_counterexample:
  "fst (loadTopicData (http_ok file_unordered_negative) page) = Some file_unordered_negative \<and>
   dataset_of file_unordered_negative =
     Some \<lparr> years = [2017, 2016], categories = [(''AI'', [- 1, 5])], markers = None \<rparr> \<and>
   \<not> valid_dataset \<lparr> years = [2017, 2016], categories = [(''AI'', [- 1, 5])], markers = None \<rparr>"
  by (simp add: file_unordered_negative_def http_ok_def page_def loadTopicData_def load_try_def
      validate_def showLoadingState_def Let_def own_entries_def is_array_index_def is_digit_def
      dataset_of_def valid_dataset_def)

section \<open>Properties of the series builder\<close>

lemma insert_by_insort_key:
  "insert_by (\<lambda>a b. key b - key a) x xs = insort_key (\<lambda>a. - key a) x (xs :: 'a list)"
  for key :: "'a \<Rightarrow> int"
  by (induction xs) auto

lemma sort_by_sort_key:
  "sort_by (\<lambda>a b. key b - key a) xs = sort_key (\<lambda>a. - key a) xs"
  for key :: "'a \<Rightarrow> int"
  by (induction xs) (simp_all add: sort_by_def insert_by_insort_key)

lemma map_insort_key:
  "map g (insort_key (\<lambda>a. f (g a)) x xs) = insort_key f (g x) (map g xs)"
  by (induction xs) auto

lemma map_sort_key:
  "map g (sort_key (\<lambda>a. f (g a)) xs) = sort_key f (map g xs)"
  by (induction xs) (simp_all add: map_insort_key)

lemma insort_key_agree:
  "f x = g x \<Longrightarrow> (\<And>y. y \<in> set ys \<Longrightarrow> f y = g y) \<Longrightarrow> insort_key f x ys = insort_key g x ys"
  by (induction ys) auto

lemma sort_key_agree:
  "(\<And>x. x \<in> set xs \<Longrightarrow> f x = g x) \<Longrightarrow> sort_key f xs = sort_key g xs"
proof (induction xs)
  case Nil
  then show ?case by simp
next
  case (Cons x xs)
  then have "sort_key f xs = sort_key g xs" by simp
  moreover have "insort_key f x (sort_key g xs) = insort_key g x (sort_key g xs)"
    by (rule insort_key_agree) (simp_all add: Cons.prems)
  ultimately show ?case by simp
qed

lemma fold_push_traces:
  "fold (\<lambda>c (traces, colorIndex). (traces @ [make_trace d c colorIndex], colorIndex + 1)) cs (ts, k)
     = (ts @ map (\<lambda>(i, c). make_trace d c i) (zip [k..<k + length cs] cs), k + length cs)"
proof (induction cs arbitrary: ts k)
  case Nil
  then show ?case by simp
next
  case (Cons c cs)
  have "[k..<k + length (c # cs)] = k # [Suc k..<Suc k + length cs]"
    by (simp add: upt_rec)
  then show ?case using Cons.IH [of "ts @ [make_trace d c k]" "Suc k"] by simp
qed

lemma createChartTraces_map:
  "createChartTraces d =
     map (\<lambda>(i, c). make_trace d c i) (zip [0..<length (categoryTotals d)] (categoryTotals d))"
  using fold_push_traces [of d "categoryTotals d" "[]" 0] by (simp add: createChartTraces_def)

lemma length_categoryTotals: "length (categoryTotals d) = length (categories d)"
proof -
  have "length (own_entries ps) = length ps" for ps :: "(string \<times> int list) list"
    using sum_length_filter_compl [of "\<lambda>p. is_array_index (fst p)" ps]
    by (simp add: own_entries_def)
  then show ?thesis
    by (simp add: categoryTotals_def sort_by_sort_key)
qed

lemma length_createChartTraces: "length (createChartTraces d) = length (categories d)"
  by (simp add: createChartTraces_map length_categoryTotals)

lemma nth_createChartTraces:
  "i < length (categories d) \<Longrightarrow>
     createChartTraces d ! i = make_trace d (categoryTotals d ! i) i"
  by (simp add: createChartTraces_map length_categoryTotals)


lemma series_of_categoryTotals:
  "map (\<lambda>c. (ct_name c, ct_values c)) (categoryTotals d) =
     sort_key (\<lambda>p. - total (snd p)) (own_entries (categories d))"
proof -
  let ?mk = "\<lambda>(n, vs). \<lparr> ct_name = n, ct_values = vs, ct_total = total vs \<rparr>"
  let ?un = "\<lambda>c. (ct_name c, ct_values c)"
  have inv: "list_all (\<lambda>c. ct_total c = total (ct_values c)) (map ?mk es)" for es
    by (induction es) auto
  have key: "sort_key (\<lambda>c. - ct_total c) cs = sort_key (\<lambda>c. - total (snd (?un c))) cs"
    if "list_all (\<lambda>c. ct_total c = total (ct_values c)) cs" for cs
    using that by (intro sort_key_agree) (auto simp: list_all_iff)
  have "map ?un (categoryTotals d) =
          map ?un (sort_key (\<lambda>c. - total (snd (?un c))) (map ?mk (own_entries (categories d))))"
    by (simp add: categoryTotals_def sort_by_sort_key key [OF inv])
  also have "\<dots> = sort_key (\<lambda>p. - total (snd p)) (map ?un (map ?mk (own_entries (categories d))))"
    by (rule map_sort_key)
  also have "map ?un (map ?mk (own_entries (categories d))) = own_entries (categories d)"
    by (induction "own_entries (categories d)") (auto simp: map_idI split_beta)
  finally show ?thesis .
qed






lemma length_colors: "length (colors CHART_CONFIG) = 20"
  by (simp add: CHART_CONFIG_def)

lemma distinct_colors: "distinct (colors CHART_CONFIG)"
  by (simp add: CHART_CONFIG_def)

lemma trace_colors:
  assumes "i < length (categories d)"
  shows "line_color (trace_line (createChartTraces d ! i)) =
           colors CHART_CONFIG ! (i mod length (colors CHART_CONFIG))"
    and "marker_color (trace_marker (createChartTraces d ! i)) =
           colors CHART_CONFIG ! (i mod length (colors CHART_CONFIG))"
  using assms by (simp_all add: nth_createChartTraces make_trace_def Let_def)

lemma palette_collision:
  assumes "i < j"
    and "colors CHART_CONFIG ! (i mod length (colors CHART_CONFIG)) =
         colors CHART_CONFIG ! (j mod length (colors CHART_CONFIG))"
  shows "length (colors CHART_CONFIG) \<le> j"
proof -
  have "i mod 20 = j mod 20"
    using assms(2) distinct_colors
    by (simp add: length_colors nth_eq_iff_index_eq)
  with assms(1) have "20 \<le> j"
    by (metis mod_less not_le_imp_less order_less_trans less_irrefl)
  then show ?thesis by (simp add: length_colors)
qed

lemma trace_symbol:
  "i < length (categories d) \<Longrightarrow>
     marker_symbol (trace_marker (createChartTraces d ! i)) =
       symbol_for d (trace_name (createChartTraces d ! i))"
  by (simp add: nth_createChartTraces make_trace_def Let_def)

section \<open>Properties of the annotation builder\<close>

lemma indexOf_nonneg_iff: "0 \<le> indexOf xs y \<longleftrightarrow> y \<in> set xs"
  by (induction xs) (auto simp: Let_def)

lemma indexOf_ge: "- 1 \<le> indexOf xs y"
  by (induction xs) (auto simp: Let_def)

lemma indexOf_first:
  "y \<in> set xs \<Longrightarrow> nat (indexOf xs y) = length (takeWhile (\<lambda>z. z \<noteq> y) xs)"
proof (induction xs)
  case Nil
  then show ?case by simp
next
  case (Cons x xs)
  show ?case
  proof (cases "x = y")
    case True
    then show ?thesis by simp
  next
    case False
    with Cons.prems have "y \<in> set xs" by simp
    then have "0 \<le> indexOf xs y" by (simp add: indexOf_nonneg_iff)
    with Cons.IH [OF \<open>y \<in> set xs\<close>] False show ?thesis
      by (simp add: Let_def nat_add_distrib)
  qed
qed

lemma push_emit:
  "push_if_positive (getCategoryValue d c y) y label colour anns =
     anns @ (case map_of (categories d) c of
               None \<Rightarrow> []
             | Some vs \<Rightarrow>
                 (let i = length (takeWhile (\<lambda>z. z \<noteq> y) (years d))
                  in if y \<in> set (years d) \<and> i < length vs \<and> 0 < vs ! i
                     then [annotation_at y (vs ! i) label colour] else []))"
proof (cases "map_of (categories d) c")
  case None
  then show ?thesis by (simp add: push_if_positive_def getCategoryValue_def)
next
  case (Some vs)
  show ?thesis
  proof (cases "y \<in> set (years d)")
    case True
    then have "0 \<le> indexOf (years d) y" by (simp add: indexOf_nonneg_iff)
    with Some True indexOf_first [OF True] show ?thesis
      by (simp add: push_if_positive_def getCategoryValue_def Let_def)
  next
    case False
    then have "\<not> 0 \<le> indexOf (years d) y" by (simp add: indexOf_nonneg_iff)
    with Some False show ?thesis
      by (simp add: push_if_positive_def getCategoryValue_def Let_def)
  qed
qed





text \<open>
  C4. The series at sorted position \<open>i\<close> has the colour \<open>palette[i mod P]\<close> for line and
  marker, where \<open>P\<close> is the palette length. With \<open>P + 1\<close> categories the first and the
  last series have the same colour, and two series have the same colour only if there are
  more categories than palette entries.
\<close>

theorem colour_cycling:
  "(\<forall>i. i < length (createChartTraces d) \<longrightarrow>
      line_color (trace_line (createChartTraces d ! i)) =
        colors CHART_CONFIG ! (i mod length (colors CHART_CONFIG)) \<and>
      marker_color (trace_marker (createChartTraces d ! i)) =
        colors CHART_CONFIG ! (i mod length (colors CHART_CONFIG))) \<and>
   (length (categories d) = length (colors CHART_CONFIG) + 1 \<longrightarrow>
      line_color (trace_line (createChartTraces d ! 0)) =
        line_color (trace_line (createChartTraces d ! length (colors CHART_CONFIG)))) \<and>
   (\<forall>i j. i < j \<and> j < length (createChartTraces d) \<and>
      line_color (trace_line (createChartTraces d ! i)) =
        line_color (trace_line (createChartTraces d ! j)) \<longrightarrow>
      length (colors CHART_CONFIG) < length (categories d))"
proof (intro conjI allI impI)
  fix i assume "i < length (createChartTraces d)"
  then have i: "i < length (categories d)" by (simp add: length_createChartTraces)
  show "line_color (trace_line (createChartTraces d ! i)) =
        colors CHART_CONFIG ! (i mod length (colors CHART_CONFIG))"
    by (rule trace_colors(1) [OF i])
  show "marker_color (trace_marker (createChartTraces d ! i)) =
        colors CHART_CONFIG ! (i mod length (colors CHART_CONFIG))"
    by (rule trace_colors(2) [OF i])
next
  assume n: "length (categories d) = length (colors CHART_CONFIG) + 1"
  then have "0 < length (categories d)" "length (colors CHART_CONFIG) < length (categories d)"
    by simp_all
  from trace_colors(1) [OF this(1)] trace_colors(1) [OF this(2)]
  show "line_color (trace_line (createChartTraces d ! 0)) =
        line_color (trace_line (createChartTraces d ! length (colors CHART_CONFIG)))"
    by (simp add: length_colors)
next
  fix i j
  assume a: "i < j \<and> j < length (createChartTraces d) \<and>
      line_color (trace_line (createChartTraces d ! i)) =
        line_color (trace_line (createChartTraces d ! j))"
  then have j: "j < length (categories d)" and i: "i < length (categories d)"
    by (simp_all add: length_createChartTraces)
  from a trace_colors(1) [OF i] trace_colors(1) [OF j]
  have "colors CHART_CONFIG ! (i mod length (colors CHART_CONFIG)) =
        colors CHART_CONFIG ! (j mod length (colors CHART_CONFIG))"
    by simp
  from palette_collision [OF _ this] a j
  show "length (colors CHART_CONFIG) < length (categories d)" by simp
qed

theorem colour_cycling_witness:
  "length (categories dataset_21) = length (colors CHART_CONFIG) + 1 \<and>
   (0::nat) < 20 \<and> 20 < length (createChartTraces dataset_21) \<and>
   line_color (trace_line (createChartTraces dataset_21 ! 0)) = ''#FF6B6B'' \<and>
   line_color (trace_line (createChartTraces dataset_21 ! 20)) = ''#FF6B6B'' \<and>
   length (colors CHART_CONFIG) < length (categories dataset_21)"
proof -
  have n: "length (categories dataset_21) = length (colors CHART_CONFIG) + 1"
    by (simp add: dataset_21_def length_colors)
  have l: "20 < length (createChartTraces dataset_21)"
    by (simp add: length_createChartTraces dataset_21_def)
  have "0 < length (createChartTraces dataset_21)" using l by linarith
  from colour_cycling [of dataset_21, THEN conjunct1, rule_format, OF this, THEN conjunct1]
  have c0: "line_color (trace_line (createChartTraces dataset_21 ! 0)) = ''#FF6B6B''"
    by (simp add: CHART_CONFIG_def)
  have "line_color (trace_line (createChartTraces dataset_21 ! 0)) =
        line_color (trace_line (createChartTraces dataset_21 ! length (colors CHART_CONFIG)))"
    using colour_cycling [of dataset_21] n by blast
  then have c20: "line_color (trace_line (createChartTraces dataset_21 ! 20)) = ''#FF6B6B''"
    using c0 by (simp add: length_colors)
  have "length (colors CHART_CONFIG) < length (categories dataset_21)"
    using colour_cycling [of dataset_21] l c0 c20
    by (metis zero_less_numeral)
  with n l c0 c20 show ?thesis by simp
qed

text \<open>
  C10, as the code has it. The symbol of a series is \<open>markers[name]\<close> when the dataset has
  a markers mapping and that read is truthy, and \<^verbatim>\<open>'circle'\<close> otherwise. The read is truthy
  for an own key with a truthy value, and also for a name that is no own key but a member
  of \<^verbatim>\<open>Object.prototype\<close>. So the symbol is \<^verbatim>\<open>'circle'\<close> when the markers field is
  absent, when the key maps to a falsy value, and when the key is absent and is not the
  name of an inherited member.
\<close>

theorem symbol_selection:
  "\<forall>t \<in> set (createChartTraces d).
     (marker_symbol (trace_marker t) \<noteq> Val (JStr ''circle'') \<longrightarrow>
        (\<exists>m. markers d = Some m \<and> truthy_val (get_property m (trace_name t)) \<and>
             marker_symbol (trace_marker t) = get_property m (trace_name t))) \<and>
     (markers d = None \<longrightarrow> marker_symbol (trace_marker t) = Val (JStr ''circle'')) \<and>
     (\<forall>m. markers d = Some m \<and> map_of m (trace_name t) = None \<and>
          trace_name t \<notin> set Object_prototype \<longrightarrow>
          marker_symbol (trace_marker t) = Val (JStr ''circle'')) \<and>
     (\<forall>m v. markers d = Some m \<and> map_of m (trace_name t) = Some v \<and> \<not> truthy v \<longrightarrow>
          marker_symbol (trace_marker t) = Val (JStr ''circle'')) \<and>
     (\<forall>m v. markers d = Some m \<and> map_of m (trace_name t) = Some v \<and> truthy v \<longrightarrow>
          marker_symbol (trace_marker t) = Val v)"
proof
  fix t assume "t \<in> set (createChartTraces d)"
  then obtain i where "i < length (createChartTraces d)" and t: "t = createChartTraces d ! i"
    by (auto simp: in_set_conv_nth)
  then have "i < length (categories d)" by (simp add: length_createChartTraces)
  from trace_symbol [OF this] t
  have s: "marker_symbol (trace_marker t) = symbol_for d (trace_name t)" by simp
  show "(marker_symbol (trace_marker t) \<noteq> Val (JStr ''circle'') \<longrightarrow>
        (\<exists>m. markers d = Some m \<and> truthy_val (get_property m (trace_name t)) \<and>
             marker_symbol (trace_marker t) = get_property m (trace_name t))) \<and>
     (markers d = None \<longrightarrow> marker_symbol (trace_marker t) = Val (JStr ''circle'')) \<and>
     (\<forall>m. markers d = Some m \<and> map_of m (trace_name t) = None \<and>
          trace_name t \<notin> set Object_prototype \<longrightarrow>
          marker_symbol (trace_marker t) = Val (JStr ''circle'')) \<and>
     (\<forall>m v. markers d = Some m \<and> map_of m (trace_name t) = Some v \<and> \<not> truthy v \<longrightarrow>
          marker_symbol (trace_marker t) = Val (JStr ''circle'')) \<and>
     (\<forall>m v. markers d = Some m \<and> map_of m (trace_name t) = Some v \<and> truthy v \<longrightarrow>
          marker_symbol (trace_marker t) = Val v)"
    unfolding s by (auto simp: symbol_for_def get_property_def split: option.splits)
qed

lemma traces_markers:
  "map (\<lambda>t. (trace_name t, marker_symbol (trace_marker t))) (createChartTraces dataset_markers) =
     [(''AI'', Val (JStr ''star'')), (''Finance'', Val (JStr ''circle'')),
      (''Other'', Val (JStr ''circle''))]"
  by (simp add: createChartTraces_def categoryTotals_def dataset_markers_def own_entries_def
      is_array_index_def is_digit_def sort_by_def total_def make_trace_def Let_def
      symbol_for_def get_property_def Object_prototype_def)

theorem symbol_selection_witness:
  "map (\<lambda>t. (trace_name t, marker_symbol (trace_marker t))) (createChartTraces dataset_markers) =
     [(''AI'', Val (JStr ''star'')), (''Finance'', Val (JStr ''circle'')),
      (''Other'', Val (JStr ''circle''))] \<and>
   markers dataset_markers = Some [(''AI'', JStr ''star''), (''Finance'', JStr '''')] \<and>
   truthy_val (get_property [(''AI'', JStr ''star''), (''Finance'', JStr '''')] ''AI'') \<and>
   map_of [(''AI'', JStr ''star''), (''Finance'', JStr '''')] ''Other'' = None \<and>
   ''Other'' \<notin> set Object_prototype \<and>
   map_of [(''AI'', JStr ''star''), (''Finance'', JStr '''')] ''Finance'' = Some (JStr '''') \<and>
   \<not> truthy (JStr '''') \<and>
   list_all (\<lambda>t. trace_name t = ''AI'' \<or> marker_symbol (trace_marker t) = Val (JStr ''circle''))
     (createChartTraces dataset_markers)"
proof -
  have m: "markers dataset_markers = Some [(''AI'', JStr ''star''), (''Finance'', JStr '''')]"
    by (simp add: dataset_markers_def)
  have n: "set (map trace_name (createChartTraces dataset_markers)) = {''AI'', ''Finance'', ''Other''}"
    using arg_cong [OF traces_markers, of "\<lambda>l. set (map fst l)"] by (simp add: comp_def)
  have "trace_name t = ''AI'' \<or> marker_symbol (trace_marker t) = Val (JStr ''circle'')"
    if t: "t \<in> set (createChartTraces dataset_markers)" for t
  proof -
    from t n have "trace_name t \<in> {''AI'', ''Finance'', ''Other''}" by auto
    moreover note symbol_selection [of dataset_markers, rule_format, OF t]
    ultimately show ?thesis
      using m by (auto simp: Object_prototype_def)
  qed
  then have "list_all (\<lambda>t. trace_name t = ''AI'' \<or> marker_symbol (trace_marker t) = Val (JStr ''circle''))
     (createChartTraces dataset_markers)"
    by (simp add: list_all_iff)
  with traces_markers m show ?thesis
    by (simp add: get_property_def Object_prototype_def)
qed

theorem symbol_selection_counterexample:
  "markers dataset_toString = Some [] \<and>
   map_of ([] :: (string \<times> json) list) ''toString'' = None \<and>
   map trace_name (createChartTraces dataset_toString) = [''toString''] \<and>
   map (marker_symbol \<circ> trace_marker) (createChartTraces dataset_toString) =
     [Inherited ''toString''] \<and>
   Inherited ''toString'' \<noteq> Val (JStr ''circle'')"
  by (simp add: createChartTraces_def categoryTotals_def dataset_toString_def own_entries_def
      is_array_index_def is_digit_def sort_by_def total_def make_trace_def Let_def
      symbol_for_def get_property_def Object_prototype_def)

text \<open>
  C2. The annotation builder emits, in the order of the fixed trigger list, the annotation
  of every trigger whose category is a category of the dataset, whose year is one of the
  years, and whose count at the position of that year exists and is greater than zero; it
  emits nothing for the other triggers, and it has no failure path.
\<close>

theorem annotations_emitted:
  "createDynamicAnnotations d =
     concat (map (\<lambda>(c, y, label, colour).
        case map_of (categories d) c of
          None \<Rightarrow> []
        | Some vs \<Rightarrow>
            (let i = length (takeWhile (\<lambda>z. z \<noteq> y) (years d))
             in if y \<in> set (years d) \<and> i < length vs \<and> 0 < vs ! i
                then [annotation_at y (vs ! i) label colour] else []))
       annotation_triggers)"
  by (simp add: createDynamicAnnotations_def annotation_triggers_def push_emit
      del: append_assoc split: option.splits)

theorem annotations_emitted_witness:
  "createDynamicAnnotations dataset_triggers =
     [annotation_at 2024 9 ''LLMs<br>Emerge'' ''#FF6B6B'']"
  using annotations_emitted [of dataset_triggers]
  by (simp add: annotation_triggers_def dataset_triggers_def)

section \<open>Properties of rendering and resizing\<close>

lemma step_Resize_single:
  assumes "resize_listeners w = [\<lparr> wait = 250, timeout = tm \<rparr>]"
  shows "step Resize w =
           w\<lparr> resize_listeners := [\<lparr> wait = 250, timeout = Some (clock w + 250) \<rparr>] \<rparr>"
  using assms by (simp add: executedFunction_def)

lemma step_Elapse_pending:
  assumes "resize_listeners w = [\<lparr> wait = 250, timeout = Some deadline \<rparr>]"
    and "clock w + g < deadline"
  shows "step (Elapse g) w = w\<lparr> clock := clock w + g \<rparr>"
  using assms by (simp add: is_due_def Let_def)

lemma step_Elapse_due:
  assumes "resize_listeners w = [\<lparr> wait = 250, timeout = Some deadline \<rparr>]"
    and "deadline \<le> clock w + g"
  shows "step (Elapse g) w =
           resize_callback
             (w\<lparr> clock := clock w + g,
                 resize_listeners := [\<lparr> wait = 250, timeout = None \<rparr>] \<rparr>)"
  using assms by (simp add: is_due_def Let_def)

lemma burst_Nil: "burst [] = [Resize, Elapse 250]"
  by (simp add: burst_def)

lemma burst_Cons: "burst (g # gs) = Resize # Elapse g # burst gs"
  by (simp add: burst_def)

lemma run_burst:
  assumes "resize_listeners w = [\<lparr> wait = 250, timeout = tm \<rparr>]"
    and "\<forall>g \<in> set gaps. g < 250"
  shows "plotly_calls (run (burst gaps) w) =
           plotly_calls w @
             (case chartInstance (app w) of
                Some gd \<Rightarrow> [PlotsResize ''evolution-chart'']
              | None \<Rightarrow> []) \<and>
         app (run (burst gaps) w) = app w"
  using assms
proof (induction gaps arbitrary: w tm)
  case Nil
  let ?w1 = "w\<lparr> resize_listeners := [\<lparr> wait = 250, timeout = Some (clock w + 250) \<rparr>] \<rparr>"
  have 1: "step Resize w = ?w1" by (rule step_Resize_single [OF Nil(1)])
  have 2: "step (Elapse 250) ?w1 =
             resize_callback
               (?w1\<lparr> clock := clock ?w1 + 250,
                     resize_listeners := [\<lparr> wait = 250, timeout = None \<rparr>] \<rparr>)"
    by (rule step_Elapse_due [where deadline = "clock w + 250"]) simp_all
  show ?case
    unfolding burst_Nil run_def
    by (simp only: fold_simps o_apply 1 2)
       (simp add: resize_callback_def split: option.splits)
next
  case (Cons g gs)
  let ?w1 = "w\<lparr> resize_listeners := [\<lparr> wait = 250, timeout = Some (clock w + 250) \<rparr>] \<rparr>"
  let ?w2 = "?w1\<lparr> clock := clock ?w1 + g \<rparr>"
  from Cons.prems have g: "g < 250" and gs: "\<forall>g \<in> set gs. g < 250" by simp_all
  have 1: "step Resize w = ?w1" by (rule step_Resize_single [OF Cons.prems(1)])
  have 2: "step (Elapse g) ?w1 = ?w2"
    by (rule step_Elapse_pending [where deadline = "clock w + 250"]) (simp_all add: g)
  have l: "resize_listeners ?w2 = [\<lparr> wait = 250, timeout = Some (clock w + 250) \<rparr>]" by simp
  have "run (burst (g # gs)) w = run (burst gs) ?w2"
    unfolding burst_Cons run_def by (simp only: fold_simps o_apply 1 2)
  with Cons.IH [OF l gs] show ?case by simp
qed

lemma renderChart_success:
  assumes "resize_listeners w0 = []"
  shows "resize_listeners (renderChart (Inr gd) d w0) = [\<lparr> wait = 250, timeout = None \<rparr>]"
    and "chartInstance (app (renderChart (Inr gd) d w0)) = Some gd"
    and "plotly_calls (renderChart (Inr gd) d w0) =
           plotly_calls w0 @
             [NewPlot ''evolution-chart'' (createChartTraces d) (createChartLayout d)
                (layout CHART_CONFIG)]"
  using assms by (simp_all add: renderChart_def Let_def debounce_def)

lemma render_then_burst:
  assumes "resize_listeners w0 = []" and "\<forall>g \<in> set gaps. g < 250"
  shows "plotly_calls (run (burst gaps) (renderChart (Inr gd) d w0)) =
           plotly_calls w0 @
             [NewPlot ''evolution-chart'' (createChartTraces d) (createChartLayout d)
                (layout CHART_CONFIG),
              PlotsResize ''evolution-chart''] \<and>
         app (run (burst gaps) (renderChart (Inr gd) d w0)) = app (renderChart (Inr gd) d w0)"
  using run_burst [OF renderChart_success(1) [OF assms(1)] assms(2), of gd d]
  by (simp add: renderChart_success(2,3) [OF assms(1)])

text \<open>
  C7, as the code has it. The series and the annotations are computed once, in
  \<open>renderChart\<close>, and passed to the charting library in the one \<^verbatim>\<open>Plotly.newPlot\<close> call.
  A burst of resize events whose gaps are shorter than the debounce delay of 250 ms leads
  to exactly one further call, \<^verbatim>\<open>Plotly.Plots.resize('evolution-chart')\<close>, which carries
  neither series nor annotations; the application state is not changed by it.
\<close>

theorem resize_calls_library_resize:
  assumes "resize_listeners w0 = []" and "\<forall>g \<in> set gaps. g < 250"
  shows "plotly_calls (run (burst gaps) (renderChart (Inr gd) d w0)) =
           plotly_calls w0 @
             [NewPlot ''evolution-chart'' (createChartTraces d) (createChartLayout d)
                (layout CHART_CONFIG),
              PlotsResize ''evolution-chart''] \<and>
         app (run (burst gaps) (renderChart (Inr gd) d w0)) = app (renderChart (Inr gd) d w0)"
  by (rule render_then_burst [OF assms])

theorem resize_calls_library_resize_witness:
  "resize_listeners page = [] \<and> list_all (\<lambda>g. g < 250) [100, 249 :: nat] \<and>
   plotly_calls (run (burst [100, 249]) (renderChart (Inr ''evolution-chart'') dataset_ABC page)) =
     [NewPlot ''evolution-chart'' (createChartTraces dataset_ABC) (createChartLayout dataset_ABC)
        (layout CHART_CONFIG),
      PlotsResize ''evolution-chart'']"
proof -
  have 1: "resize_listeners page = []" by (simp add: page_def)
  have 2: "\<forall>g \<in> set [100, 249 :: nat]. g < 250" by simp
  from resize_calls_library_resize [OF 1 2, of "''evolution-chart''" dataset_ABC]
  show ?thesis using 1 by (simp add: page_def)
qed

theorem resize_rebuild_counterexample:
  "plotly_calls (renderChart (Inr ''evolution-chart'') dataset_ABC page) =
     [NewPlot ''evolution-chart'' (createChartTraces dataset_ABC) (createChartLayout dataset_ABC)
        (layout CHART_CONFIG)] \<and>
   plotly_calls (run [Resize, Elapse 250] (renderChart (Inr ''evolution-chart'') dataset_ABC page)) =
     plotly_calls (renderChart (Inr ''evolution-chart'') dataset_ABC page) @
       [PlotsResize ''evolution-chart'']"
proof -
  have 1: "resize_listeners page = []" by (simp add: page_def)
  have 2: "\<forall>g \<in> set ([] :: nat list). g < 250" by simp
  from render_then_burst [OF 1 2, of "''evolution-chart''" dataset_ABC]
    renderChart_success(3) [OF 1, of "''evolution-chart''" dataset_ABC]
  show ?thesis by (simp add: page_def burst_Nil)
qed

section \<open>Properties of the builders on the object graph\<close>

subsection \<open>Cells\<close>

lemma alloc_list_eq:
  "alloc_list obs h = (map VRef [length h..<length h + length obs], h @ obs)"
proof (induction obs arbitrary: h)
  case Nil
  then show ?case by simp
next
  case (Cons ob obs)
  have "[length h..<length h + length (ob # obs)] =
          length h # [Suc (length h)..<Suc (length h) + length obs]"
    by (simp add: upt_rec)
  then show ?case by (simp add: alloc_def Cons.IH)
qed

lemma those_map_Some:
  "those (map f xs) = Some ys \<longleftrightarrow> list_all2 (\<lambda>x y. f x = Some y) xs ys"
proof (induction xs arbitrary: ys)
  case Nil
  then show ?case by auto
next
  case (Cons x xs)
  then show ?case by (cases ys) (auto split: option.splits)
qed

lemma those_map_SomeI:
  "(\<And>x. x \<in> set xs \<Longrightarrow> f x = Some (g x)) \<Longrightarrow> those (map f xs) = Some (map g xs)"
  by (simp add: those_map_Some list_all2_conv_all_nth)

lemma stable_refl: "stable ta h h"
  by (simp add: stable_def)

lemma stable_cell:
  "stable ta h h' \<Longrightarrow> a < length h \<Longrightarrow> a \<noteq> ta \<Longrightarrow> cell h' (VRef a) = cell h (VRef a)"
  by (simp add: stable_def cell_def)

lemma stable_append: "stable ta h (h @ ext)"
  by (simp add: stable_def nth_append)

lemma stable_update: "stable ta h (h[ta := ob])"
  by (simp add: stable_def)

lemma stable_trans: "stable ta h h' \<Longrightarrow> stable ta h' h'' \<Longrightarrow> stable ta h h''"
  by (auto simp: stable_def)

lemma cell_Some_valid: "cell h v = Some ob \<Longrightarrow> \<exists>a. v = VRef a \<and> a < length h \<and> h ! a = ob"
  by (auto simp: cell_def split: val.splits if_splits)

lemma elems_Some_valid: "elems h v = Some vs \<Longrightarrow> \<exists>a. v = VRef a \<and> a < length h \<and> h ! a = Arr vs"
  by (auto simp: elems_def dest: cell_Some_valid split: option.splits obj.splits)

lemma props_Some_valid: "props h v = Some ps \<Longrightarrow> \<exists>a. v = VRef a \<and> a < length h \<and> h ! a = Obj ps"
  by (auto simp: props_def dest: cell_Some_valid split: option.splits obj.splits)

lemma read_nums_Some_valid:
  "read_nums h v = Some ns \<Longrightarrow> \<exists>a. v = VRef a \<and> a < length h \<and> h ! a = Arr (map VNum ns)"
proof -
  assume a: "read_nums h v = Some ns"
  then obtain vs where vs: "elems h v = Some vs" and t: "those (map num_of vs) = Some ns"
    by (auto simp: read_nums_def split: option.splits)
  from t have "list_all2 (\<lambda>x y. num_of x = Some y) vs ns" by (simp add: those_map_Some)
  then have "vs = map VNum ns"
    by (induction rule: list_all2_induct) (auto elim: num_of.elims)
  with elems_Some_valid [OF vs] show ?thesis by auto
qed

lemma elems_at: "a < length h \<Longrightarrow> h ! a = Arr vs \<Longrightarrow> elems h (VRef a) = Some vs"
  by (simp add: elems_def cell_def)

lemma props_at: "a < length h \<Longrightarrow> h ! a = Obj ps \<Longrightarrow> props h (VRef a) = Some ps"
  by (simp add: props_def cell_def)

lemma those_map_Some_id: "those (map Some xs) = Some xs"
  by (induction xs) simp_all

lemma read_nums_at:
  "a < length h \<Longrightarrow> h ! a = Arr (map VNum ns) \<Longrightarrow> read_nums h (VRef a) = Some ns"
  by (simp add: read_nums_def elems_at comp_def those_map_Some_id)

lemma stable_elems:
  "stable ta h h' \<Longrightarrow> elems h v = Some vs \<Longrightarrow> v \<noteq> VRef ta \<Longrightarrow> elems h' v = Some vs"
  by (auto simp: stable_def dest!: elems_Some_valid intro!: elems_at)

lemma stable_props:
  "stable ta h h' \<Longrightarrow> props h v = Some ps \<Longrightarrow> v \<noteq> VRef ta \<Longrightarrow> props h' v = Some ps"
  by (auto simp: stable_def dest!: props_Some_valid intro!: props_at)

lemma stable_read_nums:
  "stable ta h h' \<Longrightarrow> read_nums h v = Some ns \<Longrightarrow> v \<noteq> VRef ta \<Longrightarrow> read_nums h' v = Some ns"
  by (auto simp: stable_def dest!: read_nums_Some_valid intro!: read_nums_at)

subsection \<open>The steps of the series builder\<close>


lemma length_own_entries: "length (own_entries ps) = length ps"
  using sum_length_filter_compl [of "\<lambda>p. is_array_index (fst p)" ps]
  by (simp add: own_entries_def)

lemma set_own_entries: "set (own_entries ps) = set ps"
  by (auto simp: own_entries_def)

lemma own_entries_map:
  "own_entries (map (\<lambda>p. (fst p, f p)) ps) = map (\<lambda>p. (fst p, f p)) (own_entries ps)"
proof -
  have "sort_key (\<lambda>p. parse_nat (fst p)) (map (\<lambda>p. (fst p, f p)) xs) =
        map (\<lambda>p. (fst p, f p)) (sort_key (\<lambda>p. parse_nat (fst p)) xs)" for xs
    using map_sort_key [of "\<lambda>p. (fst p, f p)" "\<lambda>p. parse_nat (fst p)" xs] by simp
  then show ?thesis
    by (simp add: own_entries_def filter_map comp_def)
qed

lemma Object_entries_heap_eq:
  assumes "props h ov = Some ps"
  shows "Object_entries_heap ov h =
           Some (VRef (length h + length ps),
                 h @ map (\<lambda>(k, v). Arr [VStr k, v]) (own_entries ps) @
                   [Arr (map VRef [length h..<length h + length ps])])"
  using assms
  by (simp add: Object_entries_heap_def alloc_list_eq alloc_def length_own_entries)

lemma array_map_eq:
  assumes "elems h arr = Some vs" and "those (map (f h) vs) = Some obs"
  shows "array_map f arr h =
           Some (VRef (length h + length obs),
                 h @ obs @ [Arr (map VRef [length h..<length h + length obs])])"
  using assms by (simp add: array_map_def alloc_list_eq alloc_def)

lemma array_sort_eq:
  assumes "elems h (VRef a) = Some vs" and "those (map (total_of h) vs) = Some ts"
  shows "array_sort (VRef a) h =
           Some (h[a := Arr (map fst (sort_by (\<lambda>a b. snd b - snd a) (zip vs ts)))])"
  using assms by (simp add: array_sort_def)

lemma read_dataset_cases:
  assumes "read_dataset h d = Some ds"
  obtains dps yv cv cps where
    "props h d = Some dps" "map_of dps ''years'' = Some yv" "read_nums h yv = Some (years ds)"
    "map_of dps ''categories'' = Some cv" "props h cv = Some cps"
    "read_series h cps = Some (categories ds)"
    "(map_of dps ''markers'' = None \<and> markers ds = None) \<or>
     (\<exists>mv ms ml. map_of dps ''markers'' = Some mv \<and> props h mv = Some ms \<and>
        read_markers ms = Some ml \<and> markers ds = Some ml)"
  using assms
  by (auto simp: read_dataset_def split: option.splits)

lemma forEach_push_eq:
  assumes "ta < length h" and "h ! ta = Arr ts"
    and "\<And>c i h'. c \<in> set cs \<Longrightarrow> stable ta h h' \<Longrightarrow> trace_object h' d c i = Some (F c i)"
  shows "forEach_push d (VRef ta) cs (h, k) =
           Some (h[ta := Arr (ts @ map VRef [length h..<length h + length cs])] @
                   map (\<lambda>(i, c). F c i) (zip [k..<k + length cs] cs),
                 k + length cs)"
  using assms
proof (induction cs arbitrary: h k ts)
  case Nil
  then have "h[ta := Arr ts] = h" by (metis list_update_id)
  then show ?case by simp
next
  case (Cons c cs)
  let ?h1 = "h @ [F c k]"
  let ?h2 = "?h1[ta := Arr (ts @ [VRef (length h)])]"
  have t: "trace_object h d c k = Some (F c k)"
    by (rule Cons.prems(3)) (simp_all add: stable_refl)
  have e: "elems ?h1 (VRef ta) = Some ts"
    using Cons.prems(1,2) by (simp add: elems_at nth_append)
  have p: "push (VRef ta) (VRef (length h)) ?h1 = Some ?h2"
    using e by (simp add: push_def)
  have s: "stable ta h ?h2"
    by (rule stable_trans [OF stable_append stable_update])
  have IH: "forEach_push d (VRef ta) cs (?h2, Suc k) =
              Some (?h2[ta := Arr ((ts @ [VRef (length h)]) @
                       map VRef [length ?h2..<length ?h2 + length cs])] @
                     map (\<lambda>(i, c). F c i) (zip [Suc k..<Suc k + length cs] cs),
                    Suc k + length cs)"
  proof (rule Cons.IH)
    show "ta < length ?h2" using Cons.prems(1) by simp
    show "?h2 ! ta = Arr (ts @ [VRef (length h)])" using Cons.prems(1) by simp
    fix c' i h' assume "c' \<in> set cs" and "stable ta ?h2 h'"
    then show "trace_object h' d c' i = Some (F c' i)"
      using Cons.prems(3) [of c' h' i] stable_trans [OF s] by simp
  qed
  have u: "[k..<Suc (k + length cs)] = k # [Suc k..<Suc (k + length cs)]"
    by (simp add: upt_rec)
  have r: "[length h..<Suc (length h + length cs)] =
             length h # [Suc (length h)..<Suc (length h + length cs)]"
    by (simp add: upt_rec)
  have step: "forEach_push d (VRef ta) (c # cs) (h, k) = forEach_push d (VRef ta) cs (?h2, Suc k)"
    by (simp add: t alloc_def p)
  have h2: "?h2[ta := Arr ((ts @ [VRef (length h)]) @
                       map VRef [length ?h2..<length ?h2 + length cs])] =
            h[ta := Arr (ts @ map VRef [length h..<Suc (length h + length cs)])] @ [F c k]"
    using Cons.prems(1) by (simp add: list_update_append r del: upt_Suc)
  show ?case
    unfolding step IH h2 by (simp add: u del: upt_Suc)
qed


lemma valid_not_fresh:
  "props h v = Some ps \<Longrightarrow> v \<noteq> VRef (length h)"
  "read_nums h v = Some ns \<Longrightarrow> v \<noteq> VRef (length h)"
  "elems h v = Some vs \<Longrightarrow> v \<noteq> VRef (length h)"
  by (auto dest: props_Some_valid read_nums_Some_valid elems_Some_valid)

lemma kept_props:
  "props h v = Some ps \<Longrightarrow> stable (length h) h h' \<Longrightarrow> props h' v = Some ps"
  by (rule stable_props) (auto dest: valid_not_fresh)

lemma kept_read_nums:
  "read_nums h v = Some ns \<Longrightarrow> stable (length h) h h' \<Longrightarrow> read_nums h' v = Some ns"
  by (rule stable_read_nums) (auto dest: valid_not_fresh)

lemma total_record_at:
  "elems h (VRef a) = Some [VStr k, v] \<Longrightarrow> read_nums h v = Some ns \<Longrightarrow>
     total_record h (VRef a) =
       Some (Obj [(''name'', VStr k), (''values'', v), (''total'', VNum (total ns))])"
  by (simp add: total_record_def)

lemma total_of_at:
  "props h c = Some [(''name'', VStr k), (''values'', v), (''total'', VNum t)] \<Longrightarrow>
     total_of h c = Some t"
  by (simp add: total_of_def)

lemma trace_object_at:
  "props h c = Some [(''name'', VStr n), (''values'', vs), (''total'', t)] \<Longrightarrow>
   props h d = Some dps \<Longrightarrow> map_of dps ''years'' = Some yv \<Longrightarrow>
   symbol_heap h dps n = Some sv \<Longrightarrow>
     trace_object h d c i =
       Some (trace_literal yv vs n sv
               (colors CHART_CONFIG ! (i mod length (colors CHART_CONFIG))))"
  by (simp add: trace_object_def)

lemma kept_symbol_heap:
  assumes "symbol_heap h dps n = Some sv" and "stable (length h) h h'"
  shows "symbol_heap h' dps n = Some sv"
proof (cases "map_of dps ''markers''")
  case None
  with assms show ?thesis by (simp add: symbol_heap_def)
next
  case (Some mv)
  with assms(1) obtain ms where ms: "props h mv = Some ms"
    by (auto simp: symbol_heap_def split: option.splits)
  from kept_props [OF ms assms(2)] Some ms assms(1) show ?thesis
    by (simp add: symbol_heap_def)
qed

lemma prim_of_encode: "prim_of v = Some j \<Longrightarrow> encode_prim j = v \<and> truthy j = truthy_v v"
  by (cases v) auto

lemma prim_reify: "prim_of v = Some j \<Longrightarrow> reify (Suc n) h v = Some v"
  by (cases v) auto

lemma read_markers_map_of:
  assumes "read_markers ms = Some ml"
  shows "map_of ml n = (case map_of ms n of None \<Rightarrow> None | Some v \<Rightarrow> prim_of v) \<and>
         (\<forall>v. map_of ms n = Some v \<longrightarrow> prim_of v \<noteq> None)"
proof -
  from assms have "list_all2 (\<lambda>p q. map_option (Pair (fst p)) (prim_of (snd p)) = Some q) ms ml"
    by (simp add: read_markers_def those_map_Some)
  then show ?thesis
    by (induction rule: list_all2_induct) auto
qed

lemma symbol_heap_correct:
  assumes "(map_of dps ''markers'' = None \<and> markers ds = None) \<or>
     (\<exists>mv ms ml. map_of dps ''markers'' = Some mv \<and> props h mv = Some ms \<and>
        read_markers ms = Some ml \<and> markers ds = Some ml)"
  shows "\<exists>sv. symbol_heap h dps n = Some sv \<and> encode_symbol (symbol_for ds n) = sv \<and>
           (\<forall>k h'. reify (Suc k) h' sv = Some sv)"
  using assms
proof (elim disjE conjE exE)
  assume "map_of dps ''markers'' = None" "markers ds = None"
  then show ?thesis by (simp add: symbol_heap_def symbol_for_def)
next
  fix mv ms ml
  assume a: "map_of dps ''markers'' = Some mv" "props h mv = Some ms"
    "read_markers ms = Some ml" "markers ds = Some ml"
  note m = read_markers_map_of [OF a(3), of n]
  show ?thesis
  proof (cases "map_of ms n")
    case None
    with m have "map_of ml n = None" by simp
    with None a show ?thesis
      by (simp add: symbol_heap_def symbol_for_def get_property_def)
  next
    case (Some v)
    with m obtain j where j: "prim_of v = Some j" "map_of ml n = Some j" by auto
    from prim_of_encode [OF j(1)] prim_reify [OF j(1)] Some j a show ?thesis
      by (simp add: symbol_heap_def symbol_for_def get_property_def)
  qed
qed

lemma reify_nums:
  "read_nums h v = Some ns \<Longrightarrow> reify (Suc (Suc n)) h v = Some (VArr (map VNum ns))"
  by (auto dest!: read_nums_Some_valid simp: comp_def those_map_SomeI [where g = VNum])

lemma reify_trace_literal:
  assumes "a < length h" and "h ! a = trace_literal yv vs n sv color"
    and "read_nums h yv = Some ys" and "read_nums h vs = Some ns"
    and "\<And>k. reify (Suc k) h sv = Some sv"
    and "encode_symbol (symbol_for ds n) = sv"
    and "color = colors CHART_CONFIG ! (i mod length (colors CHART_CONFIG))"
    and "years ds = ys" and "ct_name c = n" and "ct_values c = ns"
  shows "reify 4 h (VRef a) = Some (encode_trace (make_trace ds c i))"
proof -
  have s: "reify (Suc (Suc 0)) h sv = Some sv"
    by (rule assms(5))
  have 4: "(4::nat) = Suc (Suc (Suc (Suc 0)))" by simp
  show ?thesis
    unfolding 4
    using assms(1,2) reify_nums [OF assms(3), of "Suc 0"] reify_nums [OF assms(4), of "Suc 0"] s
      assms(6-)
    by (simp add: trace_literal_def encode_trace_def make_trace_def Let_def)
qed


lemma read_series_eq:
  assumes "read_series h cps = Some cs"
  shows "cs = map (\<lambda>p. (fst p, the (read_nums h (snd p)))) cps"
    and "\<And>p. p \<in> set cps \<Longrightarrow> read_nums h (snd p) = Some (the (read_nums h (snd p)))"
proof -
  from assms have l: "list_all2 (\<lambda>p q. map_option (Pair (fst p)) (read_nums h (snd p)) = Some q) cps cs"
    by (simp add: read_series_def those_map_Some)
  then show "cs = map (\<lambda>p. (fst p, the (read_nums h (snd p)))) cps"
    by (induction rule: list_all2_induct) auto
  from l have "\<forall>p \<in> set cps. read_nums h (snd p) \<noteq> None"
    by (induction rule: list_all2_induct) auto
  then show "\<And>p. p \<in> set cps \<Longrightarrow> read_nums h (snd p) = Some (the (read_nums h (snd p)))"
    by auto
qed

text \<open>The sorted references and the sorted entries are images of one sorted list.\<close>

lemma sorted_refs_entries:
  fixes es :: "(string \<times> val) list" and w :: "string \<times> val \<Rightarrow> int"
  defines "Z \<equiv> sort_key (\<lambda>z. - w (snd z)) (zip [0..<length es] es)"
  shows "map fst (sort_by (\<lambda>a b. snd b - snd a)
           (zip (map VRef [l..<l + length es]) (map w es))) = map (\<lambda>z. VRef (l + fst z)) Z"
    and "sort_key (\<lambda>p. - w p) es = map snd Z"
    and "\<And>z. z \<in> set Z \<Longrightarrow> fst z < length es \<and> snd z = es ! fst z"
proof -
  let ?E = "zip [0..<length es] es"
  let ?g = "\<lambda>z. (VRef (l + fst z), w (snd z))"
  have z: "zip (map VRef [l..<l + length es]) (map w es) = map ?g ?E"
    by (rule nth_equalityI) simp_all
  have "sort_by (\<lambda>a b. snd b - snd a) (map ?g ?E) = sort_key (\<lambda>q. - snd q) (map ?g ?E)"
    by (rule sort_by_sort_key)
  also have "\<dots> = map ?g (sort_key (\<lambda>z. - snd (?g z)) ?E)"
    by (rule map_sort_key [symmetric])
  finally show "map fst (sort_by (\<lambda>a b. snd b - snd a)
           (zip (map VRef [l..<l + length es]) (map w es))) = map (\<lambda>z. VRef (l + fst z)) Z"
    by (simp add: z Z_def comp_def)
  have "sort_key (\<lambda>p. - w p) (map snd ?E) = map snd (sort_key (\<lambda>z. - w (snd z)) ?E)"
    by (rule map_sort_key [symmetric])
  then show "sort_key (\<lambda>p. - w p) es = map snd Z"
    by (simp add: Z_def)
  fix z assume "z \<in> set Z"
  then have "z \<in> set ?E" by (simp add: Z_def)
  then show "fst z < length es \<and> snd z = es ! fst z"
    by (auto simp: in_set_zip)
qed


lemma createChartTraces_heap_correct:
  assumes rd: "read_dataset h d = Some ds"
  shows "\<exists>h'. createChartTraces_heap h d = Some (VRef (length h), h') \<and>
           stable (length h) h h' \<and>
           reify 5 h' (VRef (length h)) = Some (VArr (map encode_trace (createChartTraces ds)))"
proof -
  from rd obtain dps yv cv cps where
    d: "props h d = Some dps" and yv: "map_of dps ''years'' = Some yv"
    and ys: "read_nums h yv = Some (years ds)"
    and cv: "map_of dps ''categories'' = Some cv" and cps: "props h cv = Some cps"
    and rs: "read_series h cps = Some (categories ds)"
    and mk: "(map_of dps ''markers'' = None \<and> markers ds = None) \<or>
     (\<exists>mv ms ml. map_of dps ''markers'' = Some mv \<and> props h mv = Some ms \<and>
        read_markers ms = Some ml \<and> markers ds = Some ml)"
    by (rule read_dataset_cases)
  define n0 where "n0 = length h"
  define m where "m = length cps"
  define es where "es = own_entries cps"
  define ns where "ns = (\<lambda>p :: string \<times> val. the (read_nums h (snd p)))"
  define w where "w = (\<lambda>p. total (ns p))"
  define Z where "Z = sort_key (\<lambda>z. - w (snd z)) (zip [0..<length es] es)"
  have len_es: "length es = m" by (simp add: es_def m_def length_own_entries)
  have es_nums: "read_nums h (snd p) = Some (ns p)" if "p \<in> set es" for p
    using that read_series_eq(2) [OF rs, of p] by (simp add: es_def set_own_entries ns_def)
  have cats: "own_entries (categories ds) = map (\<lambda>p. (fst p, ns p)) es"
    unfolding read_series_eq(1) [OF rs] es_def ns_def by (rule own_entries_map)
  have len_cats: "length (categories ds) = m"
    unfolding read_series_eq(1) [OF rs] by (simp add: m_def)
  define sv where "sv = (\<lambda>n. the (symbol_heap h dps n))"
  have sv: "symbol_heap h dps n = Some (sv n)" "encode_symbol (symbol_for ds n) = sv n"
    "\<And>k h'. reify (Suc k) h' (sv n) = Some (sv n)" for n
    using symbol_heap_correct [OF mk, of n] by (auto simp: sv_def)
  define h1 where "h1 = h @ [Arr []]"
  define P where "P = map (\<lambda>(k, v). Arr [VStr k, v]) es"
  define h2 where "h2 = h1 @ P @ [Arr (map VRef [length h1..<length h1 + m])]"
  define T where "T = map (\<lambda>p. Obj [(''name'', VStr (fst p)), (''values'', snd p),
                                       (''total'', VNum (w p))]) es"
  define h3 where "h3 = h2 @ T @ [Arr (map VRef [length h2..<length h2 + m])]"
  define S where "S = map (\<lambda>z. VRef (length h2 + fst z)) Z"
  define ct where "ct = length h2 + m"
  define h4 where "h4 = h3[ct := Arr S]"
  define F where "F = (\<lambda>c (i::nat). case c of VRef a \<Rightarrow>
      trace_literal yv (snd (es ! (a - length h2))) (fst (es ! (a - length h2)))
        (sv (fst (es ! (a - length h2))))
        (colors CHART_CONFIG ! (i mod length (colors CHART_CONFIG))))"
  define h5 where "h5 = h4[n0 := Arr ([] @ map VRef [length h4..<length h4 + length S])] @
      map (\<lambda>(i, c). F c i) (zip [0..<0 + length S] S)"
  have l1: "length h1 = Suc n0" by (simp add: h1_def n0_def)
  have lP: "length P = m" by (simp add: P_def len_es)
  have lT: "length T = m" by (simp add: T_def len_es)
  have l2: "length h2 = n0 + m + 2" by (simp add: h2_def l1 lP)
  have l3: "length h3 = n0 + 2 * m + 3" by (simp add: h3_def l2 lT)
  have l4: "length h4 = n0 + 2 * m + 3" by (simp add: h4_def l3)
  have lZ: "length Z = m" by (simp add: Z_def len_es)
  have lS: "length S = m" by (simp add: S_def lZ)
  have st1: "stable n0 h h1" unfolding h1_def n0_def by (rule stable_append)
  have st2: "stable n0 h h2" unfolding h2_def h1_def n0_def append_assoc by (rule stable_append)
  have st3: "stable n0 h h3" unfolding h3_def h2_def h1_def n0_def append_assoc by (rule stable_append)
  have st4: "stable n0 h h4"
    using st3 by (auto simp: stable_def h4_def ct_def l2 l3 n0_def)
  \<comment> \<open>the entries\<close>
  have s1: "props h1 d = Some dps" using kept_props [OF d] st1 by (simp add: n0_def)
  have "props h1 cv = Some cps" using kept_props [OF cps] st1 by (simp add: n0_def)
  from Object_entries_heap_eq [OF this]
  have s2: "Object_entries_heap cv h1 = Some (VRef (length h1 + m), h2)"
    by (simp add: h2_def P_def es_def m_def)
  have s3: "elems h2 (VRef (length h1 + m)) = Some (map VRef [length h1..<length h1 + m])"
    by (rule elems_at) (simp_all add: l2 l1 h2_def nth_append lP)
  \<comment> \<open>the totals\<close>
  have cellP: "h2 ! (length h1 + i) = Arr [VStr (fst (es ! i)), snd (es ! i)]" if "i < m" for i
    using that by (simp add: h2_def nth_append lP P_def len_es split_beta)
  have tr: "total_record h2 (VRef (length h1 + i)) = Some (T ! i)" if "i < m" for i
  proof -
    have e: "elems h2 (VRef (length h1 + i)) = Some [VStr (fst (es ! i)), snd (es ! i)]"
      using that by (intro elems_at cellP) (simp add: l1 l2)
    have "es ! i \<in> set es" using that by (simp add: len_es)
    from kept_read_nums [OF es_nums [OF this]] st2
    have "read_nums h2 (snd (es ! i)) = Some (ns (es ! i))" by (simp add: n0_def)
    from total_record_at [OF e this] that show ?thesis
      by (simp add: T_def len_es w_def)
  qed
  have s3b: "those (map (total_record h2) (map VRef [length h1..<length h1 + m])) = Some T"
    by (simp add: those_map_Some list_all2_conv_all_nth lT tr)
  from array_map_eq [where f = total_record, OF s3 s3b]
  have s4: "array_map total_record (VRef (length h1 + m)) h2 = Some (VRef ct, h3)"
    by (simp add: lT h3_def ct_def)
  \<comment> \<open>the sort\<close>
  have s5: "elems h3 (VRef ct) = Some (map VRef [length h2..<length h2 + m])"
    by (rule elems_at) (simp_all add: ct_def l2 l3 h3_def nth_append lT)
  have cellT: "h3 ! (length h2 + i) = T ! i" if "i < m" for i
    using that by (simp add: h3_def nth_append lT)
  have Ti: "T ! i = Obj [(''name'', VStr (fst (es ! i))), (''values'', snd (es ! i)),
                          (''total'', VNum (w (es ! i)))]" if "i < m" for i
    using that by (simp add: T_def len_es)
  have "total_of h3 (VRef (length h2 + i)) = Some (w (es ! i))" if "i < m" for i
  proof (rule total_of_at, rule props_at)
    show "length h2 + i < length h3" using that by (simp add: l2 l3)
    show "h3 ! (length h2 + i) = Obj [(''name'', VStr (fst (es ! i))), (''values'', snd (es ! i)),
                          (''total'', VNum (w (es ! i)))]"
      using cellT [OF that] Ti [OF that] by simp
  qed
  then have s5b: "those (map (total_of h3) (map VRef [length h2..<length h2 + m])) = Some (map w es)"
    by (simp add: those_map_Some list_all2_conv_all_nth len_es)
  have "map fst (sort_by (\<lambda>a b. snd b - snd a)
           (zip (map VRef [length h2..<length h2 + m]) (map w es))) = S"
    using sorted_refs_entries(1) [of "length h2" es w] by (simp add: S_def Z_def len_es)
  with array_sort_eq [OF s5 s5b]
  have s6: "array_sort (VRef ct) h3 = Some h4" by (simp add: h4_def)
  have s7: "elems h4 (VRef ct) = Some S"
    by (rule elems_at) (simp_all add: h4_def ct_def l2 l3)
  \<comment> \<open>the loop\<close>
  have Zmem: "fst z < m \<and> snd z = es ! fst z" if "z \<in> set Z" for z
    using sorted_refs_entries(3) [of z w es] that by (simp add: Z_def len_es)
  have n0_lt: "n0 < length h4" by (simp add: l4)
  have h4_n0: "h4 ! n0 = Arr []"
    by (simp add: h4_def ct_def l2 h3_def h2_def h1_def nth_append n0_def)
  have body: "trace_object h' d c i = Some (F c i)" if c: "c \<in> set S" and st: "stable n0 h4 h'" for c i h'
  proof -
    from c obtain z where z: "z \<in> set Z" and cz: "c = VRef (length h2 + fst z)"
      by (auto simp: S_def)
    let ?j = "fst z"
    from Zmem [OF z] have j: "?j < m" by simp
    have "h4 ! (length h2 + ?j) = T ! ?j"
      using j cellT [OF j] by (simp add: h4_def ct_def)
    then have "props h4 c = Some [(''name'', VStr (fst (es ! ?j))), (''values'', snd (es ! ?j)),
                          (''total'', VNum (w (es ! ?j)))]"
      unfolding cz using j by (intro props_at) (simp_all add: Ti l2 l4)
    from stable_props [OF st this]
    have 1: "props h' c = Some [(''name'', VStr (fst (es ! ?j))), (''values'', snd (es ! ?j)),
                          (''total'', VNum (w (es ! ?j)))]"
      by (simp add: cz l2)
    have sth: "stable n0 h h'" by (rule stable_trans [OF st4 st])
    have 2: "props h' d = Some dps" using kept_props [OF d] sth by (simp add: n0_def)
    have 3: "symbol_heap h' dps (fst (es ! ?j)) = Some (sv (fst (es ! ?j)))"
      using kept_symbol_heap [OF sv(1)] sth by (simp add: n0_def)
    from trace_object_at [OF 1 2 yv 3] show ?thesis
      by (simp add: F_def cz)
  qed
  from forEach_push_eq [where cs = S and F = F and d = d and k = 0, OF n0_lt h4_n0 body]
  have s8: "forEach_push d (VRef n0) S (h4, 0) = Some (h5, 0 + length S)"
    by (simp add: h5_def)
  have run: "createChartTraces_heap h d = Some (VRef n0, h5)"
    by (simp add: createChartTraces_heap_def alloc_def h1_def [symmetric] n0_def [symmetric]
        s1 cv s2 s4 s6 s7 s8)
  \<comment> \<open>the frame\<close>
  have st5: "stable n0 h h5"
    using st4 by (simp add: stable_def h5_def nth_append l4 n0_def)
  \<comment> \<open>the result\<close>
  have l5: "length h5 = n0 + 3 * m + 3" by (simp add: h5_def l4 lS)
  have h5_n0: "h5 ! n0 = Arr (map VRef [length h4..<length h4 + m])"
    by (simp add: h5_def nth_append l4 lS)
  have srt: "map (\<lambda>c. (ct_name c, ct_values c)) (categoryTotals ds) =
               map (\<lambda>z. (fst (snd z), ns (snd z))) Z"
  proof -
    have "sort_key (\<lambda>q. - total (snd q)) (map (\<lambda>p. (fst p, ns p)) es) =
          map (\<lambda>p. (fst p, ns p)) (sort_key (\<lambda>p. - w p) es)"
      using map_sort_key [of "\<lambda>p. (fst p, ns p)" "\<lambda>q. - total (snd q)" es]
      by (simp add: w_def)
    also have "sort_key (\<lambda>p. - w p) es = map snd Z"
      unfolding Z_def by (rule sorted_refs_entries(2))
    finally show ?thesis
      by (simp add: series_of_categoryTotals cats comp_def)
  qed
  have one: "reify 4 h5 (VRef (length h4 + j)) = Some (encode_trace (createChartTraces ds ! j))"
    if j: "j < m" for j
  proof -
    let ?z = "Z ! j"
    let ?p = "es ! fst ?z"
    have zin: "?z \<in> set Z" using j by (simp add: lZ)
    from Zmem [OF zin] have fz: "fst ?z < m" and sz: "snd ?z = ?p" by simp_all
    have Sj: "S ! j = VRef (length h2 + fst ?z)" using j by (simp add: S_def lZ)
    have cellj: "h5 ! (length h4 + j) =
        trace_literal yv (snd ?p) (fst ?p) (sv (fst ?p))
          (colors CHART_CONFIG ! (j mod length (colors CHART_CONFIG)))"
      using j by (simp add: h5_def nth_append l4 lS Sj F_def)
    have "map (\<lambda>c. (ct_name c, ct_values c)) (categoryTotals ds) ! j =
            map (\<lambda>z. (fst (snd z), ns (snd z))) Z ! j"
      by (simp add: srt)
    then have nm: "ct_name (categoryTotals ds ! j) = fst ?p"
      and vl: "ct_values (categoryTotals ds ! j) = ns ?p"
      using j by (simp_all add: length_categoryTotals len_cats lZ sz)
    have pin: "?p \<in> set es" using fz by (simp add: len_es)
    have ry: "read_nums h5 yv = Some (years ds)"
      using kept_read_nums [OF ys] st5 by (simp add: n0_def)
    have rv: "read_nums h5 (snd ?p) = Some (ns ?p)"
      using kept_read_nums [OF es_nums [OF pin]] st5 by (simp add: n0_def)
    have "reify 4 h5 (VRef (length h4 + j)) =
            Some (encode_trace (make_trace ds (categoryTotals ds ! j) j))"
      by (rule reify_trace_literal [OF _ cellj ry rv sv(3) sv(2) refl refl nm vl])
         (use j in \<open>simp add: l5 l4\<close>)
    then show ?thesis
      using j by (simp add: nth_createChartTraces len_cats)
  qed
  have "those (map (reify 4 h5) (map VRef [length h4..<length h4 + m])) =
          Some (map encode_trace (createChartTraces ds))"
    by (simp add: those_map_Some list_all2_conv_all_nth length_createChartTraces len_cats one)
  then have res: "reify 5 h5 (VRef n0) = Some (VArr (map encode_trace (createChartTraces ds)))"
    using h5_n0 by (simp add: eval_nat_numeral l5)
  from run st5 res show ?thesis
    unfolding n0_def by blast
qed


subsection \<open>The steps of the annotation builder\<close>

lemma read_series_map_of:
  assumes "read_series h cps = Some cs"
  shows "map_of cs c = (case map_of cps c of None \<Rightarrow> None | Some v \<Rightarrow> read_nums h v) \<and>
         (\<forall>v. map_of cps c = Some v \<longrightarrow> read_nums h v \<noteq> None)"
proof -
  from assms have "list_all2 (\<lambda>p q. map_option (Pair (fst p)) (read_nums h (snd p)) = Some q) cps cs"
    by (simp add: read_series_def those_map_Some)
  then show ?thesis
    by (induction rule: list_all2_induct) auto
qed

lemma kept_read_dataset:
  assumes "read_dataset h d = Some ds" and "stable (length h) h h'"
  shows "read_dataset h' d = Some ds"
proof -
  from assms(1) obtain dps yv cv cps where
    d: "props h d = Some dps" and yv: "map_of dps ''years'' = Some yv"
    and ys: "read_nums h yv = Some (years ds)"
    and cv: "map_of dps ''categories'' = Some cv" and cps: "props h cv = Some cps"
    and rs: "read_series h cps = Some (categories ds)"
    and mk: "(map_of dps ''markers'' = None \<and> markers ds = None) \<or>
     (\<exists>mv ms ml. map_of dps ''markers'' = Some mv \<and> props h mv = Some ms \<and>
        read_markers ms = Some ml \<and> markers ds = Some ml)"
    by (rule read_dataset_cases)
  have "read_nums h' (snd p) = read_nums h (snd p)" if "p \<in> set cps" for p
    using read_series_eq(2) [OF rs that] kept_read_nums [OF _ assms(2)] by simp
  then have "read_series h' cps = read_series h cps"
    by (simp add: read_series_def cong: map_cong)
  with rs have rs': "read_series h' cps = Some (categories ds)" by simp
  from mk show ?thesis
  proof (elim disjE conjE exE)
    assume "map_of dps ''markers'' = None" "markers ds = None"
    then show ?thesis
      using kept_props [OF d assms(2)] kept_props [OF cps assms(2)] kept_read_nums [OF ys assms(2)]
        yv cv rs'
      by (simp add: read_dataset_def)
  next
    fix mv ms ml
    assume "map_of dps ''markers'' = Some mv" "props h mv = Some ms"
      "read_markers ms = Some ml" "markers ds = Some ml"
    then show ?thesis
      using kept_props [OF d assms(2)] kept_props [OF cps assms(2)] kept_read_nums [OF ys assms(2)]
        kept_props [OF \<open>props h mv = Some ms\<close> assms(2)] yv cv rs'
      by (simp add: read_dataset_def)
  qed
qed

lemma getCategoryValue_heap_correct:
  assumes "read_dataset h d = Some ds"
  shows "getCategoryValue_heap h d c y = Some (encode_value (getCategoryValue ds c y))"
proof -
  from assms obtain dps yv cv cps where
    d: "props h d = Some dps" and yv: "map_of dps ''years'' = Some yv"
    and ys: "read_nums h yv = Some (years ds)"
    and cv: "map_of dps ''categories'' = Some cv" and cps: "props h cv = Some cps"
    and rs: "read_series h cps = Some (categories ds)"
    by (rule read_dataset_cases)
  note m = read_series_map_of [OF rs, of c]
  show ?thesis
  proof (cases "map_of cps c")
    case None
    with m d yv cv cps show ?thesis
      by (simp add: getCategoryValue_heap_def getCategoryValue_def)
  next
    case (Some v)
    with m obtain vs where "read_nums h v = Some vs" "map_of (categories ds) c = Some vs" by auto
    with Some d yv ys cv cps show ?thesis
      by (simp add: getCategoryValue_heap_def getCategoryValue_def Let_def)
  qed
qed

text \<open>The annotations array at \<open>n0\<close> holds references to the cells of the annotations
  built so far, and every cell below \<open>n0\<close> is as in \<open>h\<close>.\<close>

lemma push_if_positive_heap_step:
  assumes "stable n0 h g" and "n0 = length h" and "n0 < length g" and "g ! n0 = Arr refs"
    and "list_all2 (\<lambda>r a. \<exists>ad. r = VRef ad \<and> ad < length g \<and> ad \<noteq> n0 \<and> g ! ad = annotation_cell a)
           refs anns"
  shows "\<exists>g' refs'. push_if_positive_heap (VRef n0) (encode_value v) y label colour g = Some g' \<and>
           stable n0 h g' \<and> n0 < length g' \<and> g' ! n0 = Arr refs' \<and>
           list_all2 (\<lambda>r a. \<exists>ad. r = VRef ad \<and> ad < length g' \<and> ad \<noteq> n0 \<and> g' ! ad = annotation_cell a)
             refs' (push_if_positive v y label colour anns)"
proof (cases "\<exists>n. v = Some n \<and> n > 0")
  case False
  then have "push_if_positive_heap (VRef n0) (encode_value v) y label colour g = Some g"
    and "push_if_positive v y label colour anns = anns"
    by (cases v; auto simp: push_if_positive_heap_def push_if_positive_def)+
  with assms show ?thesis by auto
next
  case True
  then obtain n where v: "v = Some n" and n: "n > 0" by blast
  let ?ob = "annotation_object y (VNum n) label colour"
  let ?g' = "(g @ [?ob])[n0 := Arr (refs @ [VRef (length g)])]"
  have e: "elems (g @ [?ob]) (VRef n0) = Some refs"
    using assms(3,4) by (simp add: elems_at nth_append)
  have 1: "push_if_positive_heap (VRef n0) (encode_value v) y label colour g = Some ?g'"
    using v n e by (simp add: push_if_positive_heap_def alloc_def push_def)
  have 2: "push_if_positive v y label colour anns = anns @ [annotation_at y n label colour]"
    using v n by (simp add: push_if_positive_def)
  have 3: "stable n0 h ?g'"
    by (rule stable_trans [OF assms(1)]) (rule stable_trans [OF stable_append stable_update])
  have 4: "?g' ! n0 = Arr (refs @ [VRef (length g)])" using assms(3) by simp
  have old: "list_all2 (\<lambda>r a. \<exists>ad. r = VRef ad \<and> ad < length ?g' \<and> ad \<noteq> n0 \<and> ?g' ! ad = annotation_cell a)
               refs anns"
    using assms(5) by (rule list_all2_mono) (auto simp: nth_append)
  have new: "\<exists>ad. VRef (length g) = VRef ad \<and> ad < length ?g' \<and> ad \<noteq> n0 \<and>
               ?g' ! ad = annotation_cell (annotation_at y n label colour)"
    using assms(3) by (auto simp: annotation_cell_def annotation_at_def)
  have 5: "list_all2 (\<lambda>r a. \<exists>ad. r = VRef ad \<and> ad < length ?g' \<and> ad \<noteq> n0 \<and> ?g' ! ad = annotation_cell a)
             (refs @ [VRef (length g)]) (anns @ [annotation_at y n label colour])"
    using old new by (simp add: list_all2_appendI)
  have 6: "n0 < length ?g'" using assms(3) by simp
  show ?thesis
    unfolding 2 using 1 3 4 5 6 by blast
qed

lemma reify_annotation_cell:
  assumes "ad < length g" and "g ! ad = annotation_cell a"
    and "ann_font a = \<lparr> font_size = 11, font_color = ''#1a202c'',
                    font_family = ''-apple-system, BlinkMacSystemFont, sans-serif'' \<rparr>"
    and "showarrow a" "arrowhead a = 2" "arrowsize a = 1" "arrowwidth a = 2" "ax a = 0"
    and "ay a = - 40" "bgcolor a = ''rgba(255,255,255,0.9)''" "bordercolor a = arrowcolor a"
    and "borderwidth a = 1" "borderpad a = 4"
  shows "reify 3 g (VRef ad) = Some (encode_annotation a)"
proof -
  have 3: "(3::nat) = Suc (Suc (Suc 0))" by simp
  show ?thesis
    unfolding 3 using assms
    by (simp add: annotation_cell_def annotation_object_def encode_annotation_def)
qed


lemma push_if_positive_literals:
  assumes "\<forall>a \<in> set anns. \<exists>y n l c. a = annotation_at y n l c"
  shows "\<forall>a \<in> set (push_if_positive v y label colour anns). \<exists>y n l c. a = annotation_at y n l c"
  using assms by (auto simp: push_if_positive_def split: option.splits)

lemma reify_annotation_at:
  assumes "ad < length g" and "g ! ad = annotation_cell a" and "a = annotation_at y n l c"
  shows "reify 3 g (VRef ad) = Some (encode_annotation a)"
  using assms(1,2) unfolding assms(3)
  by (rule reify_annotation_cell) (simp_all add: annotation_at_def)

lemma createDynamicAnnotations_heap_correct:
  assumes rd: "read_dataset h d = Some ds"
  shows "\<exists>h'. createDynamicAnnotations_heap h d = Some (VRef (length h), h') \<and>
           stable (length h) h h' \<and>
           reify 4 h' (VRef (length h)) =
             Some (VArr (map encode_annotation (createDynamicAnnotations ds)))"
proof -
  define n0 where "n0 = length h"
  let ?I = "\<lambda>g refs anns. stable n0 h g \<and> n0 < length g \<and> g ! n0 = Arr refs \<and>
      list_all2 (\<lambda>r a. \<exists>ad. r = VRef ad \<and> ad < length g \<and> ad \<noteq> n0 \<and> g ! ad = annotation_cell a)
        refs anns"
  have gv: "getCategoryValue_heap g d c y = Some (encode_value (getCategoryValue ds c y))"
    if "stable n0 h g" for g c y
    using getCategoryValue_heap_correct [OF kept_read_dataset [OF rd]] that by (simp add: n0_def)
  define g1 where "g1 = h @ [Arr []]"
  define v1 where "v1 = getCategoryValue ds ''Machine Learning & AI'' 2024"
  define v2 where "v2 = getCategoryValue ds ''Social Sciences & Demographics'' 2019"
  define v3 where "v3 = getCategoryValue ds ''Pandemic & Public Health'' 2020"
  define a1 where "a1 = push_if_positive v1 2024 ''LLMs<br>Emerge'' ''#FF6B6B'' []"
  define a2 where "a2 = push_if_positive v2 2019 ''Census<br>Focus'' ''#ed8936'' a1"
  define a3 where "a3 = push_if_positive v3 2020 ''COVID-19<br>Impact'' ''#48bb78'' a2"
  have i1: "stable n0 h g1" "n0 = length h" "n0 < length g1" "g1 ! n0 = Arr []"
    "list_all2 (\<lambda>r a. \<exists>ad. r = VRef ad \<and> ad < length g1 \<and> ad \<noteq> n0 \<and> g1 ! ad = annotation_cell a)
       [] []"
    by (simp_all add: g1_def n0_def stable_append)
  from push_if_positive_heap_step [OF i1, of v1 2024 "''LLMs<br>Emerge''" "''#FF6B6B''"]
  obtain g2 r2 where p1: "push_if_positive_heap (VRef n0) (encode_value v1) 2024 ''LLMs<br>Emerge''
      ''#FF6B6B'' g1 = Some g2"
    and i2: "stable n0 h g2" "n0 < length g2" "g2 ! n0 = Arr r2"
      "list_all2 (\<lambda>r a. \<exists>ad. r = VRef ad \<and> ad < length g2 \<and> ad \<noteq> n0 \<and> g2 ! ad = annotation_cell a)
         r2 a1"
    unfolding a1_def by blast
  from push_if_positive_heap_step [OF i2(1) i1(2) i2(2-4), of v2 2019 "''Census<br>Focus''" "''#ed8936''"]
  obtain g3 r3 where p2: "push_if_positive_heap (VRef n0) (encode_value v2) 2019 ''Census<br>Focus''
      ''#ed8936'' g2 = Some g3"
    and i3: "stable n0 h g3" "n0 < length g3" "g3 ! n0 = Arr r3"
      "list_all2 (\<lambda>r a. \<exists>ad. r = VRef ad \<and> ad < length g3 \<and> ad \<noteq> n0 \<and> g3 ! ad = annotation_cell a)
         r3 a2"
    unfolding a2_def by blast
  from push_if_positive_heap_step [OF i3(1) i1(2) i3(2-4), of v3 2020 "''COVID-19<br>Impact''" "''#48bb78''"]
  obtain g4 r4 where p3: "push_if_positive_heap (VRef n0) (encode_value v3) 2020 ''COVID-19<br>Impact''
      ''#48bb78'' g3 = Some g4"
    and i4: "stable n0 h g4" "n0 < length g4" "g4 ! n0 = Arr r4"
      "list_all2 (\<lambda>r a. \<exists>ad. r = VRef ad \<and> ad < length g4 \<and> ad \<noteq> n0 \<and> g4 ! ad = annotation_cell a)
         r4 a3"
    unfolding a3_def by blast
  have run: "createDynamicAnnotations_heap h d = Some (VRef n0, g4)"
    using gv [OF i1(1)] gv [OF i2(1)] gv [OF i3(1)] p1 p2 p3
    by (simp add: createDynamicAnnotations_heap_def alloc_def g1_def [symmetric]
        n0_def [symmetric] v1_def v2_def v3_def)
  have pure: "createDynamicAnnotations ds = a3"
    by (simp add: createDynamicAnnotations_def a3_def a2_def a1_def v1_def v2_def v3_def)
  have lit: "\<forall>a \<in> set a3. \<exists>y n l c. a = annotation_at y n l c"
    unfolding a3_def a2_def a1_def
    by (intro push_if_positive_literals) simp
  have "list_all2 (\<lambda>r a. reify 3 g4 r = Some (encode_annotation a)) r4 a3"
  proof (rule list_all2_all_nthI)
    show "length r4 = length a3" using i4(4) by (rule list_all2_lengthD)
    fix i assume i: "i < length r4"
    with i4(4) obtain ad where ad: "r4 ! i = VRef ad" "ad < length g4"
      "g4 ! ad = annotation_cell (a3 ! i)"
      by (auto simp: list_all2_conv_all_nth)
    from i i4(4) have "a3 ! i \<in> set a3" by (simp add: list_all2_lengthD)
    with lit obtain y n l c where "a3 ! i = annotation_at y n l c" by blast
    from reify_annotation_at [OF ad(2,3) this] ad(1)
    show "reify 3 g4 (r4 ! i) = Some (encode_annotation (a3 ! i))" by simp
  qed
  then have "those (map (reify 3 g4) r4) = Some (map encode_annotation a3)"
    by (simp add: those_map_Some list_all2_conv_all_nth)
  then have res: "reify 4 g4 (VRef n0) = Some (VArr (map encode_annotation a3))"
    using i4(2,3) by (simp add: eval_nat_numeral)
  from run i4(1) res pure show ?thesis
    unfolding n0_def by auto
qed

lemma stable_take: "stable (length h) h h' \<Longrightarrow> take (length h) h' = h"
  by (rule nth_equalityI) (auto simp: stable_def)

lemma read_heap_two: "read_dataset heap_two (VRef 5) = Some dataset_two"
  by (simp add: read_dataset_def heap_two_def dataset_two_def props_def cell_def read_nums_def
      elems_def read_series_def read_markers_def)

text \<open>
  C9. For a heap that holds a dataset of the data model at the reference passed in, each of
  the two builders returns, and the heap after the call has every cell of the heap before
  the call unchanged: the cells written are the new ones. In particular the dataset read
  at the same reference after the call is the dataset read before it.
\<close>

theorem builders_leave_dataset_unchanged:
  assumes "read_dataset h d = Some ds"
  shows "(\<exists>r h'. createChartTraces_heap h d = Some (r, h') \<and>
            take (length h) h' = h \<and> read_dataset h' d = Some ds) \<and>
         (\<exists>r h'. createDynamicAnnotations_heap h d = Some (r, h') \<and>
            take (length h) h' = h \<and> read_dataset h' d = Some ds)"
proof
  from createChartTraces_heap_correct [OF assms]
  obtain h' where "createChartTraces_heap h d = Some (VRef (length h), h')"
    and s: "stable (length h) h h'" by blast
  with stable_take [OF s] kept_read_dataset [OF assms s]
  show "\<exists>r h'. createChartTraces_heap h d = Some (r, h') \<and>
            take (length h) h' = h \<and> read_dataset h' d = Some ds"
    by blast
next
  from createDynamicAnnotations_heap_correct [OF assms]
  obtain h' where "createDynamicAnnotations_heap h d = Some (VRef (length h), h')"
    and s: "stable (length h) h h'" by blast
  with stable_take [OF s] kept_read_dataset [OF assms s]
  show "\<exists>r h'. createDynamicAnnotations_heap h d = Some (r, h') \<and>
            take (length h) h' = h \<and> read_dataset h' d = Some ds"
    by blast
qed

theorem builders_leave_dataset_unchanged_witness:
  "read_dataset heap_two (VRef 5) = Some dataset_two \<and>
   (\<exists>r h'. createChartTraces_heap heap_two (VRef 5) = Some (r, h') \<and>
      take (length heap_two) h' = heap_two \<and> read_dataset h' (VRef 5) = Some dataset_two) \<and>
   (\<exists>r h'. createDynamicAnnotations_heap heap_two (VRef 5) = Some (r, h') \<and>
      take (length heap_two) h' = heap_two \<and> read_dataset h' (VRef 5) = Some dataset_two)"
  using builders_leave_dataset_unchanged [OF read_heap_two] read_heap_two by simp

text \<open>
  C6. The builders take the heap and a reference and give back a reference and the heap:
  they have no access to the page, the console or the application state. For a heap that
  holds a dataset of the data model, calling a builder and then calling it again on the
  heap the first call left behind gives two results that read back as the same value,
  the one the dataset alone determines (the result of the builder on the typed dataset).
\<close>

theorem builders_repeatable:
  assumes "read_dataset h d = Some ds"
  shows "(\<exists>r1 h1 r2 h2. createChartTraces_heap h d = Some (r1, h1) \<and>
            createChartTraces_heap h1 d = Some (r2, h2) \<and>
            reify 5 h1 r1 = Some (VArr (map encode_trace (createChartTraces ds))) \<and>
            reify 5 h2 r2 = reify 5 h1 r1) \<and>
         (\<exists>r1 h1 r2 h2. createDynamicAnnotations_heap h d = Some (r1, h1) \<and>
            createDynamicAnnotations_heap h1 d = Some (r2, h2) \<and>
            reify 4 h1 r1 = Some (VArr (map encode_annotation (createDynamicAnnotations ds))) \<and>
            reify 4 h2 r2 = reify 4 h1 r1)"
proof
  from createChartTraces_heap_correct [OF assms]
  obtain h1 where 1: "createChartTraces_heap h d = Some (VRef (length h), h1)"
    "stable (length h) h h1"
    "reify 5 h1 (VRef (length h)) = Some (VArr (map encode_trace (createChartTraces ds)))"
    by blast
  from createChartTraces_heap_correct [OF kept_read_dataset [OF assms 1(2)]]
  obtain h2 where 2: "createChartTraces_heap h1 d = Some (VRef (length h1), h2)"
    "reify 5 h2 (VRef (length h1)) = Some (VArr (map encode_trace (createChartTraces ds)))"
    by blast
  from 1 2 show "\<exists>r1 h1 r2 h2. createChartTraces_heap h d = Some (r1, h1) \<and>
            createChartTraces_heap h1 d = Some (r2, h2) \<and>
            reify 5 h1 r1 = Some (VArr (map encode_trace (createChartTraces ds))) \<and>
            reify 5 h2 r2 = reify 5 h1 r1"
    by (metis (no_types))
next
  from createDynamicAnnotations_heap_correct [OF assms]
  obtain h1 where 1: "createDynamicAnnotations_heap h d = Some (VRef (length h), h1)"
    "stable (length h) h h1"
    "reify 4 h1 (VRef (length h)) =
       Some (VArr (map encode_annotation (createDynamicAnnotations ds)))"
    by blast
  from createDynamicAnnotations_heap_correct [OF kept_read_dataset [OF assms 1(2)]]
  obtain h2 where 2: "createDynamicAnnotations_heap h1 d = Some (VRef (length h1), h2)"
    "reify 4 h2 (VRef (length h1)) =
       Some (VArr (map encode_annotation (createDynamicAnnotations ds)))"
    by blast
  from 1 2 show "\<exists>r1 h1 r2 h2. createDynamicAnnotations_heap h d = Some (r1, h1) \<and>
            createDynamicAnnotations_heap h1 d = Some (r2, h2) \<and>
            reify 4 h1 r1 = Some (VArr (map encode_annotation (createDynamicAnnotations ds))) \<and>
            reify 4 h2 r2 = reify 4 h1 r1"
    by (metis (no_types))
qed

theorem builders_repeatable_witness:
  "read_dataset heap_two (VRef 5) = Some dataset_two \<and>
   (\<exists>r1 h1 r2 h2. createChartTraces_heap heap_two (VRef 5) = Some (r1, h1) \<and>
      createChartTraces_heap h1 (VRef 5) = Some (r2, h2) \<and>
      reify 5 h1 r1 = Some (VArr (map encode_trace (createChartTraces dataset_two))) \<and>
      reify 5 h2 r2 = reify 5 h1 r1) \<and>
   (\<exists>r1 h1 r2 h2. createDynamicAnnotations_heap heap_two (VRef 5) = Some (r1, h1) \<and>
      createDynamicAnnotations_heap h1 (VRef 5) = Some (r2, h2) \<and>
      reify 4 h1 r1 = Some (VArr (map encode_annotation (createDynamicAnnotations dataset_two))) \<and>
      reify 4 h2 r2 = reify 4 h1 r1)"
  using builders_repeatable [OF read_heap_two] read_heap_two by simp

end
